theory Spec2Isabelle
  imports Complex_Main "HOL-Library.Sublist"
begin

section \<open>The segment cache (src/routes/m3u8-proxy.ts, lines 42-80 and 141-172)\<close>

text \<open>
  A JavaScript string is modelled as a \<open>string\<close>; a \<open>Uint8Array\<close> as a list of
  characters too. \<open>Date.now()\<close> is an integer number of milliseconds and is passed in as
  \<open>now\<close>.
\<close>

record CacheEntry =
  data :: string
  headers :: "(string \<times> string) list"
  timestamp :: int

text \<open>
  \<open>segmentCache\<close> is a JavaScript \<open>Map\<close>: it iterates in insertion order, and the
  stable sort of \<open>cleanupCache\<close> observes that order, so the model is an association
  list in insertion order. A \<open>Map\<close> holds every key once: \<open>distinct (map fst c)\<close>.
\<close>

type_synonym segment_cache = "(string \<times> CacheEntry) list"

definition CACHE_MAX_SIZE :: nat where
  "CACHE_MAX_SIZE = 2000"

definition CACHE_EXPIRY_MS :: int where
  "CACHE_EXPIRY_MS = 2 * 60 * 60 * 1000"

definition Map_get :: "string \<Rightarrow> segment_cache \<Rightarrow> CacheEntry option" where
  "Map_get url c = map_of c url"

definition Map_delete :: "string \<Rightarrow> segment_cache \<Rightarrow> segment_cache" where
  "Map_delete url c = filter (\<lambda>(k, v). k \<noteq> url) c"

definition Map_set :: "string \<Rightarrow> CacheEntry \<Rightarrow> segment_cache \<Rightarrow> segment_cache" where
  "Map_set url e c =
     (if url \<in> fst ` set c then map (\<lambda>(k, v). if k = url then (k, e) else (k, v)) c
      else c @ [(url, e)])"

text \<open>
  The first loop of \<open>cleanupCache\<close> (lines 56-61): every entry of the map is visited
  and deleted when \<open>now - entry.timestamp > CACHE_EXPIRY_MS\<close>.
\<close>

definition cleanupCache_expired :: "int \<Rightarrow> segment_cache \<Rightarrow> segment_cache" where
  "cleanupCache_expired now c =
     fold (\<lambda>(url, entry) m.
             if now - timestamp entry > CACHE_EXPIRY_MS then Map_delete url m else m) c c"

text \<open>
  \<open>cleanupCache\<close> (lines 52-80). \<open>Array.prototype.sort\<close> is stable, as \<open>sort_key\<close> is.
  The function returns \<open>segmentCache.size\<close>, the length of the cache returned here.
\<close>

definition cleanupCache :: "int \<Rightarrow> segment_cache \<Rightarrow> segment_cache" where
  "cleanupCache now c =
     (let c1 = cleanupCache_expired now c in
      if length c1 > CACHE_MAX_SIZE then
        (let entries = sort_key (\<lambda>(url, entry). timestamp entry) c1;
             toRemove = take (length c1 - CACHE_MAX_SIZE) entries
         in fold (\<lambda>(url, entry) m. Map_delete url m) toRemove c1)
      else c1)"

text \<open>
  \<open>getCachedSegment\<close> (lines 141-156). \<open>disabled\<close> is \<open>isCacheDisabled()\<close>, that is
  \<open>process.env.DISABLE_CACHE === 'true'\<close>. The result is the value returned
  (\<open>None\<close> for \<open>undefined\<close>) and the cache after the call.
\<close>

definition getCachedSegment ::
  "bool \<Rightarrow> int \<Rightarrow> string \<Rightarrow> segment_cache \<Rightarrow> CacheEntry option \<times> segment_cache" where
  "getCachedSegment disabled now url c =
     (if disabled then (None, c)
      else (case Map_get url c of
              Some entry \<Rightarrow>
                if now - timestamp entry > CACHE_EXPIRY_MS then (None, Map_delete url c)
                else (Some entry, c)
            | None \<Rightarrow> (None, c)))"

text \<open>A cache of 2001 fresh entries under distinct keys, inserted at times 0 to 2000.\<close>

definition sample_full_cache :: segment_cache where
  "sample_full_cache =
     map (\<lambda>i. (replicate i (CHR ''a''), \<lparr>data = [], headers = [], timestamp = int i\<rparr>))
       [0..<2001]"

section \<open>The platform: URL, JSON and fetch\<close>

text \<open>
  The WHATWG \<open>URL\<close> constructor, \<open>JSON.parse\<close>, \<open>JSON.stringify\<close> and \<open>fetch\<close>
  belong to the JavaScript runtime, not to the repository. They are parameters of the
  model: every theorem below holds for whatever these functions compute.

  \<open>new URL(u, base)\<close> either throws a \<open>TypeError\<close> with a message or yields an object
  of which the code reads \<open>hostname\<close> and \<open>href\<close>.
\<close>

datatype url_result = URL_throws string | URL_ok string string

type_synonym url_ctor = "string \<Rightarrow> string option \<Rightarrow> url_result"

text \<open>
  A parsed JSON value. The code never inspects a number, so its value is an \<open>int\<close>
  here. \<open>JSON.parse\<close> builds objects with distinct keys.
\<close>

datatype json = JNull | JBool bool | JNum int | JStr string | JArr "json list"
  | JObj "(string \<times> json) list"

text \<open>\<open>JSON.parse\<close> is \<open>None\<close> where it throws a \<open>SyntaxError\<close>.\<close>

type_synonym json_parse = "string \<Rightarrow> json option"

type_synonym json_stringify = "json \<Rightarrow> string"

record response =
  ok :: bool
  status :: nat
  statusText :: string
  body :: string

text \<open>
  \<open>Fetch_throws\<close> is a \<open>fetch\<close> that rejects, or a body that cannot be read: both are
  thrown inside the same \<open>try\<close>. It carries the error's \<open>message\<close> and, where the
  error has one, its \<open>response.status\<close>. The header object handed to \<open>fetch\<close> is a map
  from names to values.
\<close>

datatype fetch_result = Fetch_throws string "nat option" | Fetch_response response

type_synonym fetch_fn = "string \<Rightarrow> (string \<rightharpoonup> json) \<Rightarrow> fetch_result"

section \<open>The URL resolver (src/routes/m3u8-proxy.ts, lines 6-40)\<close>

text \<open>
  The pattern of line 11, read from the left with the backtracking order of a JavaScript
  regular expression:
  \<^verbatim>\<open>/^(?:(https?:)?\/\/)?(([^\/?]+?)(?::(\d{0,5})(?=[\/?]|$))?)([\/?][\S\s]*|$)/i\<close>

  \<open>scheme_prefix\<close> is group 1, \<open>https?:\<close> without regard to case. It yields the text
  captured and the rest of the input.
\<close>

fun scheme_prefix :: "string \<Rightarrow> (string \<times> string) option" where
  "scheme_prefix (h # t1 # t2 # p # c # r) =
     (if h \<in> set ''hH'' \<and> t1 \<in> set ''tT'' \<and> t2 \<in> set ''tT'' \<and> p \<in> set ''pP'' then
        (if c \<in> set ''sS'' \<and> (case r of d # r' \<Rightarrow> d = CHR '':'' | [] \<Rightarrow> False)
         then Some ([h, t1, t2, p, c, CHR '':''], tl r)
         else if c = CHR '':'' then Some ([h, t1, t2, p, c], r)
         else None)
      else None)"
| "scheme_prefix _ = None"

text \<open>
  \<open>at_tail\<close> is where group 5, \<open>([\/?][\S\s]*|$)\<close>, matches, and also where the
  lookahead \<open>(?=[\/?]|$)\<close> holds: at a slash, at a question mark, or at the end.
\<close>

definition at_tail :: "string \<Rightarrow> bool" where
  "at_tail r = (case r of [] \<Rightarrow> True | c # _ \<Rightarrow> c = CHR ''/'' \<or> c = CHR ''?'')"

definition is_digit :: "char \<Rightarrow> bool" where
  "is_digit c = (c \<in> set ''0123456789'')"

text \<open>
  \<open>port_digits n\<close> is \<open>\d{0,n}\<close> followed by the lookahead: greedy, one more digit is
  tried first, and stopping here is tried when that fails.
\<close>

fun port_digits :: "nat \<Rightarrow> string \<Rightarrow> (string \<times> string) option" where
  "port_digits 0 r = (if at_tail r then Some ([], r) else None)"
| "port_digits (Suc n) [] = Some ([], [])"
| "port_digits (Suc n) (c # cs) =
     (case (if is_digit c then port_digits n cs else None) of
        Some (ds, t) \<Rightarrow> Some (c # ds, t)
      | None \<Rightarrow> if at_tail (c # cs) then Some ([], c # cs) else None)"

text \<open>The optional group \<open>(?::(\d{0,5})(?=[\/?]|$))\<close>.\<close>

definition port_group :: "string \<Rightarrow> (string \<times> string) option" where
  "port_group r =
     (case r of c # cs \<Rightarrow> if c = CHR '':'' then port_digits 5 cs else None | [] \<Rightarrow> None)"

text \<open>
  What follows the host: the port group is tried first (the \<open>?\<close> is greedy), then the
  tail; without the port group the tail must match where the host ended. The result is
  group 4 (\<open>None\<close> when the port group took no part) and group 5.
\<close>

definition after_host :: "string \<Rightarrow> (string option \<times> string) option" where
  "after_host r =
     (case port_group r of
        Some (ds, t) \<Rightarrow>
          if at_tail t then Some (Some ds, t)
          else if at_tail r then Some (None, r) else None
      | None \<Rightarrow> if at_tail r then Some (None, r) else None)"

text \<open>
  The host \<open>([^\/?]+?)\<close> is lazy: with the characters in \<open>acc\<close> taken, the rest of
  the pattern is tried first, and one more character is taken only when that fails.
\<close>

fun host_lazy :: "string \<Rightarrow> string \<Rightarrow> (string \<times> string option \<times> string) option" where
  "host_lazy acc [] =
     (case after_host [] of Some (p, t) \<Rightarrow> Some (acc, p, t) | None \<Rightarrow> None)"
| "host_lazy acc (c # cs) =
     (case after_host (c # cs) of
        Some (p, t) \<Rightarrow> Some (acc, p, t)
      | None \<Rightarrow> if c = CHR ''/'' \<or> c = CHR ''?'' then None else host_lazy (acc @ [c]) cs)"

definition host_group :: "string \<Rightarrow> (string \<times> string option \<times> string) option" where
  "host_group r =
     (case r of
        c # cs \<Rightarrow> if c = CHR ''/'' \<or> c = CHR ''?'' then None else host_lazy [c] cs
      | [] \<Rightarrow> None)"

text \<open>
  The whole pattern, anchored at the start. The alternatives of the optional first group
  are tried in the order of the regular expression: scheme and slashes, slashes alone,
  nothing. A match is (group 1, group 3, group 4, group 5).
\<close>

type_synonym url_match = "string option \<times> string \<times> string option \<times> string"

definition url_pattern :: "string \<Rightarrow> url_match option" where
  "url_pattern s =
     (case (case scheme_prefix s of
              Some (sch, r) \<Rightarrow>
                if prefix ''//'' r then map_option (Pair (Some sch)) (host_group (drop 2 r))
                else None
            | None \<Rightarrow> None) of
        Some m \<Rightarrow> Some m
      | None \<Rightarrow>
          (case (if prefix ''//'' s then map_option (Pair None) (host_group (drop 2 s))
                 else None) of
             Some m \<Rightarrow> Some m
           | None \<Rightarrow> map_option (Pair None) (host_group s)))"

text \<open>\<open>/^https?:/i.test(req_url)\<close> (line 18).\<close>

definition test_http :: "string \<Rightarrow> bool" where
  "test_http s = (scheme_prefix s \<noteq> None)"

text \<open>
  \<open>parseURL\<close> has three outcomes: it throws (the \<open>TypeError\<close> of \<open>new URL\<close>, which
  line 8 does not catch), it returns \<open>null\<close>, or it returns a string.
\<close>

datatype parse_outcome = Thrown string | Null | Str string

text \<open>
  Lines 30-39: the structured parse of the final \<open>req_url\<close>, with the \<open>try\<close>/\<open>catch\<close>
  that turns a throw into \<open>null\<close>.
\<close>

definition parse_final :: "url_ctor \<Rightarrow> string \<Rightarrow> parse_outcome" where
  "parse_final URL req_url =
     (case URL req_url None of
        URL_throws m \<Rightarrow> Null
      | URL_ok hostname href \<Rightarrow> if hostname = [] then Null else Str href)"

text \<open>
  Lines 22-27: the scheme is omitted. \<open>req_url.lastIndexOf("//", 0) === -1\<close> holds when
  \<open>req_url\<close> does not start with two slashes.
\<close>

definition assume_scheme :: "string option \<Rightarrow> string \<Rightarrow> string" where
  "assume_scheme port req_url =
     (if port = Some ''443'' then ''https:'' else ''http:'') @
     (if \<not> prefix ''//'' req_url then ''//'' @ req_url else req_url)"

text \<open>
  \<open>parseURL\<close> (lines 6-40). \<open>baseUrl\<close> is \<open>None\<close> for \<open>undefined\<close>; an empty string is
  falsy too. \<open>!match[1]\<close> holds when group 1 took no part or is empty.
\<close>

definition parseURL :: "url_ctor \<Rightarrow> string \<Rightarrow> string option \<Rightarrow> parse_outcome" where
  "parseURL URL req_url baseUrl =
     (if baseUrl \<noteq> None \<and> baseUrl \<noteq> Some [] then
        (case URL req_url baseUrl of
           URL_throws m \<Rightarrow> Thrown m
         | URL_ok hostname href \<Rightarrow> Str href)
      else
        (case url_pattern req_url of
           None \<Rightarrow> Null
         | Some (scheme, host, port, rest) \<Rightarrow>
             if scheme = None \<or> scheme = Some [] then
               (if test_http req_url then Null
                else parse_final URL (assume_scheme port req_url))
             else parse_final URL req_url))"

text \<open>
  The URL that the structured parse of lines 30-39 receives when \<open>parseURL\<close> is called
  without a base and gets that far.
\<close>

definition final_url :: "string \<Rightarrow> string" where
  "final_url s =
     (case url_pattern s of
        Some (None, host, port, rest) \<Rightarrow> assume_scheme port s
      | _ \<Rightarrow> s)"

text \<open>
  A sample of the \<open>URL\<close> constructor for the worked examples: what the WHATWG algorithm
  yields at the inputs listed. At every other input this sample throws; of those, the
  examples use \<open>http://example.com:99999\<close> (a port above 65535) and \<open>http://\<close> against
  a base (an empty host), where the real constructor throws too.
\<close>

definition sample_URL :: url_ctor where
  "sample_URL u b =
     (if b = None \<and> u = ''https://example.com:443/v/a.m3u8''
        then URL_ok ''example.com'' ''https://example.com/v/a.m3u8''
      else if b = None \<and> u = ''http://example.com/v/a.m3u8''
        then URL_ok ''example.com'' ''http://example.com/v/a.m3u8''
      else if b = Some ''https://cdn.example/a/media.m3u8'' \<and> u = ''seg1.ts''
        then URL_ok ''cdn.example'' ''https://cdn.example/a/seg1.ts''
      else if b = Some ''https://cdn.example/a/master.m3u8'' \<and> u = ''hi.m3u8''
        then URL_ok ''cdn.example'' ''https://cdn.example/a/hi.m3u8''
      else if b = Some ''https://cdn.example/a/master.m3u8'' \<and> u = ''lo.m3u8''
        then URL_ok ''cdn.example'' ''https://cdn.example/a/lo.m3u8''
      else URL_throws ''Invalid URL'')"

section \<open>JavaScript strings\<close>

text \<open>
  A character of the model is a UTF-16 code unit below 256. \<open>split_nl\<close> is
  \<open>s.split("\n")\<close> and \<open>join_nl\<close> is \<open>lines.join("\n")\<close>.
\<close>

fun split_nl :: "string \<Rightarrow> string list" where
  "split_nl [] = [[]]"
| "split_nl (c # cs) =
     (if c = CHR 0x0A then [] # split_nl cs
      else (case split_nl cs of l # ls \<Rightarrow> (c # l) # ls | [] \<Rightarrow> [[c]]))"

fun join_nl :: "string list \<Rightarrow> string" where
  "join_nl [] = []"
| "join_nl [l] = l"
| "join_nl (l # m # ls) = l @ CHR 0x0A # join_nl (m # ls)"

definition startsWith :: "string \<Rightarrow> string \<Rightarrow> bool" where
  "startsWith s p = prefix p s"

fun String_includes :: "string \<Rightarrow> string \<Rightarrow> bool" where
  "String_includes [] p = (p = [])"
| "String_includes (c # cs) p = (prefix p (c # cs) \<or> String_includes cs p)"

text \<open>
  The white space of \<open>String.prototype.trim\<close> and of \<open>\s\<close>, below 256: tab, line feed,
  vertical tab, form feed, carriage return, space, no-break space.
\<close>

definition is_space :: "char \<Rightarrow> bool" where
  "is_space c = (c \<in> {CHR 0x09, CHR 0x0A, CHR 0x0B, CHR 0x0C, CHR 0x0D, CHR 0x20, CHR 0xA0})"

definition trim :: "string \<Rightarrow> string" where
  "trim s = rev (dropWhile is_space (rev (dropWhile is_space s)))"

text \<open>
  \<open>/https?:\/\/[^\""\s]+/g\<close> (lines 229, 239, 285): \<open>http_url_at\<close> is the match that
  starts at the head of the string, \<open>find_http_url\<close> is \<open>regex.exec(line)?.[0]\<close>, the
  leftmost match.
\<close>

definition url_char :: "char \<Rightarrow> bool" where
  "url_char c = (c \<noteq> CHR 0x22 \<and> \<not> is_space c)"

definition http_url_at :: "string \<Rightarrow> string option" where
  "http_url_at s =
     (if prefix ''https://'' s \<and> takeWhile url_char (drop 8 s) \<noteq> []
        then Some (''https://'' @ takeWhile url_char (drop 8 s))
      else if prefix ''http://'' s \<and> takeWhile url_char (drop 7 s) \<noteq> []
        then Some (''http://'' @ takeWhile url_char (drop 7 s))
      else None)"

fun find_http_url :: "string \<Rightarrow> string option" where
  "find_http_url [] = None"
| "find_http_url (c # cs) =
     (case http_url_at (c # cs) of Some u \<Rightarrow> Some u | None \<Rightarrow> find_http_url cs)"

text \<open>
  \<open>line.replace(keyUrl, proxyKeyUrl)\<close> with a string pattern replaces the first
  occurrence, and reads the replacement through ECMAScript's \<open>GetSubstitution\<close>:
  \<open>$$\<close> is a dollar, \<open>$&\<close> the matched text, \<open>$`\<close> the text before the match,
  \<open>$'\<close> the text after it; there are no capture groups, so every other dollar stands
  for itself. The arguments are the matched text, the text before, the text after, and
  the replacement.
\<close>

fun GetSubstitution :: "string \<Rightarrow> string \<Rightarrow> string \<Rightarrow> string \<Rightarrow> string" where
  "GetSubstitution m b a (c # d # r) =
     (if c = CHR ''$'' then
        (if d = CHR ''$'' then CHR ''$'' # GetSubstitution m b a r
         else if d = CHR ''&'' then m @ GetSubstitution m b a r
         else if d = CHR 0x60 then b @ GetSubstitution m b a r
         else if d = CHR 0x27 then a @ GetSubstitution m b a r
         else c # GetSubstitution m b a (d # r))
      else c # GetSubstitution m b a (d # r))"
| "GetSubstitution m b a r = r"

fun index_of :: "string \<Rightarrow> string \<Rightarrow> nat option" where
  "index_of [] p = (if p = [] then Some 0 else None)"
| "index_of (c # cs) p =
     (if prefix p (c # cs) then Some 0 else map_option Suc (index_of cs p))"

definition String_replace :: "string \<Rightarrow> string \<Rightarrow> string \<Rightarrow> string" where
  "String_replace s p r =
     (case index_of s p of
        None \<Rightarrow> s
      | Some i \<Rightarrow>
          take i s @ GetSubstitution p (take i s) (drop (i + length p) s) r @
          drop (i + length p) s)"

text \<open>
  \<open>encodeURIComponent\<close>: letters, digits and \<open>- _ . ! ~ * ' ( )\<close> stand for
  themselves; every other code unit is written as the bytes of its UTF-8 encoding, each
  as \<open>%XX\<close> (one byte below 128, two bytes from 128 to 255).
\<close>

definition hex_digit :: "nat \<Rightarrow> char" where
  "hex_digit n = ''0123456789ABCDEF'' ! (n mod 16)"

definition percent_byte :: "nat \<Rightarrow> string" where
  "percent_byte b = [CHR ''%'', hex_digit (b div 16), hex_digit b]"

definition uri_unreserved :: "char \<Rightarrow> bool" where
  "uri_unreserved c =
     (c \<in> set ''ABCDEFGHIJKLMNOPQRSTUVWXYZabcdefghijklmnopqrstuvwxyz0123456789-_.!~*()''
      \<or> c = CHR 0x27)"

definition encode_unit :: "char \<Rightarrow> string" where
  "encode_unit c =
     (if uri_unreserved c then [c]
      else if (of_char c :: nat) < 128 then percent_byte (of_char c)
      else percent_byte (192 + of_char c div 64) @ percent_byte (128 + of_char c mod 64))"

definition encodeURIComponent :: "string \<Rightarrow> string" where
  "encodeURIComponent s = concat (map encode_unit s)"

text \<open>A number in a template literal, as \<open>${response.status}\<close>.\<close>

fun show_nat :: "nat \<Rightarrow> string" where
  "show_nat n =
     (if n < 10 then [''0123456789'' ! n]
      else show_nat (n div 10) @ [''0123456789'' ! (n mod 10)])"

declare show_nat.simps [simp del]

section \<open>Request headers\<close>

text \<open>
  \<open>headersParam ? JSON.parse(headersParam) : {}\<close> (m3u8-proxy.ts line 190, ts-proxy.ts
  line 30); \<open>None\<close> is the \<open>catch\<close> branch.
\<close>

definition parse_headers :: "json_parse \<Rightarrow> string option \<Rightarrow> json option" where
  "parse_headers parse headersParam =
     (case headersParam of
        None \<Rightarrow> Some (JObj [])
      | Some p \<Rightarrow> if p = [] then Some (JObj []) else parse p)"

text \<open>
  The properties that \<open>{...headers}\<close> copies: the own enumerable properties of the
  value. \<open>null\<close>, a boolean and a number have none; a string has one per index, holding
  the code unit there; an array has one per index; an object has its members.
\<close>

definition spread :: "json \<Rightarrow> (string \<rightharpoonup> json)" where
  "spread v =
     (case v of
        JStr s \<Rightarrow> map_of (zip (map show_nat [0..<length s]) (map (\<lambda>c. JStr [c]) s))
      | JArr xs \<Rightarrow> map_of (zip (map show_nat [0..<length xs]) xs)
      | JObj members \<Rightarrow> map_of members
      | _ \<Rightarrow> Map.empty)"

definition USER_AGENT :: string where
  "USER_AGENT =
     ''Mozilla/5.0 (Windows NT 10.0; Win64; x64; rv:93.0) Gecko/20100101 Firefox/93.0''"

text \<open>The header object handed to \<open>fetch\<close>: the default, then the spread of \<open>headers\<close>.\<close>

definition origin_headers :: "json \<Rightarrow> (string \<rightharpoonup> json)" where
  "origin_headers hdrs = [''User-Agent'' \<mapsto> JStr USER_AGENT] ++ spread hdrs"

section \<open>The playlist rewriter (src/routes/m3u8-proxy.ts, lines 177-352)\<close>

text \<open>
  The rewriter starts background work without awaiting it. The model of m3u8-proxy.ts
  returns, beside the reply, the calls a request has issued on the cache, in order:
  \<open>Prefetch u h\<close> is \<open>prefetchSegment(u, h)\<close>, \<open>Cleanup\<close> is \<open>cleanupCache()\<close>, and
  \<open>PrefetchAll us h\<close> is \<open>Promise.all(us.map(u => prefetchSegment(u, h)))\<close>.
\<close>

datatype call = Prefetch string json | Cleanup | PrefetchAll "string list" json

record cache_stats =
  entries :: nat
  totalSizeMB :: string
  avgEntrySizeKB :: string
  maxSize :: nat
  expiryHours :: rat

text \<open>
  What a handler answers: the CORS preflight reply, an error sent with \<open>sendError\<close>
  (status code and message), or a value returned with status 200: the rewritten
  manifest, the statistics, or a segment with its content type and bytes.
\<close>

datatype reply = Reply_cors | Reply_error nat string | Reply_manifest string
  | Reply_stats cache_stats | Reply_segment string string

text \<open>
  The runtime, the environment and the request. \<open>toFixed2\<close> is \<open>x.toFixed(2)\<close>; the
  numbers it receives are rationals here, doubles in JavaScript. \<open>path\<close> is
  \<open>event.path\<close>, the path of the request with its query string; \<open>query_url\<close> and
  \<open>query_headers\<close> are the parameters \<open>url\<close> and \<open>headers\<close> of that query string.
\<close>

record platform =
  URL_new :: url_ctor
  JSON_parse :: json_parse
  JSON_stringify :: json_stringify
  fetch :: fetch_fn
  toFixed2 :: "rat \<Rightarrow> string"

record env =
  DISABLE_M3U8 :: bool
  DISABLE_CACHE :: bool

record event =
  isPreflightRequest :: bool
  path :: string
  query_url :: "string option"
  query_headers :: "string option"
  requestHost :: string
  requestProtocol :: string

text \<open>The template of lines 232, 242, 254, 288 and 307.\<close>

definition proxy_url :: "json_stringify \<Rightarrow> string \<Rightarrow> string \<Rightarrow> string \<Rightarrow> json \<Rightarrow> string" where
  "proxy_url stringify baseProxyUrl route target hdrs =
     baseProxyUrl @ route @ ''?url='' @ encodeURIComponent target @
     ''&headers='' @ encodeURIComponent (stringify hdrs)"

text \<open>
  One iteration of the master loop (lines 226-261): \<open>Inl\<close> is the message of an error
  thrown, \<open>Inr\<close> the line pushed onto \<open>newLines\<close>.
\<close>

definition master_line ::
  "url_ctor \<Rightarrow> json_stringify \<Rightarrow> string \<Rightarrow> string \<Rightarrow> json \<Rightarrow> string \<Rightarrow> string + string" where
  "master_line URL stringify baseProxyUrl url hdrs line =
     (if startsWith line ''#'' then
        (if startsWith line ''#EXT-X-KEY:'' then
           (case find_http_url line of
              Some keyUrl \<Rightarrow>
                Inr (String_replace line keyUrl
                       (proxy_url stringify baseProxyUrl ''/ts-proxy'' keyUrl hdrs))
            | None \<Rightarrow> Inr line)
         else if startsWith line ''#EXT-X-MEDIA:'' then
           (case find_http_url line of
              Some mediaUrl \<Rightarrow>
                Inr (String_replace line mediaUrl
                       (proxy_url stringify baseProxyUrl ''/m3u8-proxy'' mediaUrl hdrs))
            | None \<Rightarrow> Inr line)
         else Inr line)
      else if trim line \<noteq> [] then
        (case parseURL URL line (Some url) of
           Thrown m \<Rightarrow> Inl m
         | Str variantUrl \<Rightarrow>
             if variantUrl \<noteq> []
             then Inr (proxy_url stringify baseProxyUrl ''/m3u8-proxy'' variantUrl hdrs)
             else Inr line
         | Null \<Rightarrow> Inr line)
      else Inr line)"

text \<open>
  One iteration of the media loop (lines 282-314): the calls issued, and either the
  message of an error thrown or the line pushed onto \<open>newLines\<close> with the URLs pushed
  onto \<open>segmentUrls\<close>. \<open>disabled\<close> is \<open>isCacheDisabled()\<close>.
\<close>

definition media_line ::
  "url_ctor \<Rightarrow> json_stringify \<Rightarrow> bool \<Rightarrow> string \<Rightarrow> string \<Rightarrow> json \<Rightarrow> string \<Rightarrow>
   call list \<times> (string + string \<times> string list)" where
  "media_line URL stringify disabled baseProxyUrl url hdrs line =
     (if startsWith line ''#'' then
        (if startsWith line ''#EXT-X-KEY:'' then
           (case find_http_url line of
              Some keyUrl \<Rightarrow>
                (if \<not> disabled then [Prefetch keyUrl hdrs] else [],
                 Inr (String_replace line keyUrl
                        (proxy_url stringify baseProxyUrl ''/ts-proxy'' keyUrl hdrs), []))
            | None \<Rightarrow> ([], Inr (line, [])))
         else ([], Inr (line, [])))
      else if trim line \<noteq> [] \<and> \<not> startsWith line ''#'' then
        (case parseURL URL line (Some url) of
           Thrown m \<Rightarrow> ([], Inl m)
         | Str segmentUrl \<Rightarrow>
             if segmentUrl \<noteq> []
             then ([], Inr (proxy_url stringify baseProxyUrl ''/ts-proxy'' segmentUrl hdrs,
                            [segmentUrl]))
             else ([], Inr (line, []))
         | Null \<Rightarrow> ([], Inr (line, [])))
      else ([], Inr (line, [])))"

text \<open>
  The two \<open>for\<close> loops, with \<open>newLines\<close>, \<open>segmentUrls\<close> and the calls issued so far as
  accumulators. An error thrown in an iteration ends the loop; the calls already issued
  stay issued.
\<close>

fun master_loop ::
  "(string \<Rightarrow> string + string) \<Rightarrow> string list \<Rightarrow> string list \<Rightarrow> string + string list" where
  "master_loop f newLines [] = Inr newLines"
| "master_loop f newLines (line # lines) =
     (case f line of
        Inl m \<Rightarrow> Inl m
      | Inr newLine \<Rightarrow> master_loop f (newLines @ [newLine]) lines)"

fun media_loop ::
  "(string \<Rightarrow> call list \<times> (string + string \<times> string list)) \<Rightarrow>
   string list \<Rightarrow> string list \<Rightarrow> call list \<Rightarrow> string list \<Rightarrow>
   call list \<times> (string + string list \<times> string list)" where
  "media_loop f newLines segmentUrls calls [] = (calls, Inr (newLines, segmentUrls))"
| "media_loop f newLines segmentUrls calls (line # lines) =
     (case f line of
        (cs, Inl m) \<Rightarrow> (calls @ cs, Inl m)
      | (cs, Inr (newLine, segs)) \<Rightarrow>
          media_loop f (newLines @ [newLine]) (segmentUrls @ segs) (calls @ cs) lines)"

text \<open>The \<open>catch\<close> of lines 345-351.\<close>

definition internal_error :: "string \<Rightarrow> reply" where
  "internal_error m = Reply_error 500 (if m \<noteq> [] then m else ''Error proxying M3U8 file'')"

text \<open>
  Lines 220-344: the branch on \<open>m3u8Content.includes("RESOLUTION=")\<close>, the loop of the
  branch taken and, in the media branch, the hand-over of \<open>segmentUrls\<close> to the
  prefetcher.
\<close>

definition rewrite_manifest ::
  "url_ctor \<Rightarrow> json_stringify \<Rightarrow> bool \<Rightarrow> string \<Rightarrow> string \<Rightarrow> json \<Rightarrow> string \<Rightarrow>
   reply \<times> call list" where
  "rewrite_manifest URL stringify disabled baseProxyUrl url hdrs m3u8Content =
     (if String_includes m3u8Content ''RESOLUTION='' then
        (case master_loop (master_line URL stringify baseProxyUrl url hdrs) []
                (split_nl m3u8Content) of
           Inl m \<Rightarrow> (internal_error m, [])
         | Inr newLines \<Rightarrow> (Reply_manifest (join_nl newLines), []))
      else
        (case media_loop (media_line URL stringify disabled baseProxyUrl url hdrs) [] [] []
                (split_nl m3u8Content) of
           (calls, Inl m) \<Rightarrow> (internal_error m, calls)
         | (calls, Inr (newLines, segmentUrls)) \<Rightarrow>
             (Reply_manifest (join_nl newLines),
              calls @ (if segmentUrls \<noteq> [] \<and> \<not> disabled
                       then [Cleanup, PrefetchAll segmentUrls hdrs] else []))))"

text \<open>\<open>proxyM3U8\<close> (lines 177-352).\<close>

definition proxyM3U8 :: "platform \<Rightarrow> env \<Rightarrow> event \<Rightarrow> reply \<times> call list" where
  "proxyM3U8 P e ev =
     (case query_url ev of
        None \<Rightarrow> (Reply_error 400 ''URL parameter is required'', [])
      | Some url \<Rightarrow>
          if url = [] then (Reply_error 400 ''URL parameter is required'', [])
          else
            (case parse_headers (JSON_parse P) (query_headers ev) of
               None \<Rightarrow> (Reply_error 400 ''Invalid headers format'', [])
             | Some hdrs \<Rightarrow>
                 (case fetch P url (origin_headers hdrs) of
                    Fetch_throws m st \<Rightarrow> (internal_error m, [])
                  | Fetch_response r \<Rightarrow>
                      if \<not> ok r then
                        (internal_error (''Failed to fetch M3U8: '' @ show_nat (status r) @
                                         '' '' @ statusText r), [])
                      else
                        rewrite_manifest (URL_new P) (JSON_stringify P) (DISABLE_CACHE e)
                          (requestProtocol ev @ ''://'' @ requestHost ev) url hdrs (body r))))"

text \<open>\<open>getCacheStats\<close> (lines 158-172) and \<open>handleCacheStats\<close> (lines 354-361).\<close>

definition getCacheStats :: "(rat \<Rightarrow> string) \<Rightarrow> segment_cache \<Rightarrow> cache_stats" where
  "getCacheStats fixed c =
     (let sizes = map (\<lambda>(url, entry). length (data entry)) c;
          totalBytes = sum_list sizes;
          avgBytes = (if length sizes > 0 then of_nat totalBytes / of_nat (length sizes) else 0)
      in \<lparr>entries = length c,
          totalSizeMB = fixed (of_nat totalBytes / (1024 * 1024)),
          avgEntrySizeKB = fixed (avgBytes / 1024),
          maxSize = CACHE_MAX_SIZE,
          expiryHours = of_int CACHE_EXPIRY_MS / (60 * 60 * 1000)\<rparr>)"

definition handleCacheStats :: "platform \<Rightarrow> int \<Rightarrow> segment_cache \<Rightarrow> reply \<times> call list" where
  "handleCacheStats P now c =
     (Reply_stats (getCacheStats (toFixed2 P) (cleanupCache now c)), [Cleanup])"

text \<open>
  The default export of m3u8-proxy.ts (lines 363-379), for a request that arrives at time
  \<open>now\<close> with the cache \<open>c\<close>.
\<close>

definition m3u8_proxy_handler ::
  "platform \<Rightarrow> env \<Rightarrow> int \<Rightarrow> segment_cache \<Rightarrow> event \<Rightarrow> reply \<times> call list" where
  "m3u8_proxy_handler P e now c ev =
     (if isPreflightRequest ev then (Reply_cors, [])
      else if DISABLE_M3U8 e then (Reply_error 404 ''M3U8 proxying is disabled'', [])
      else if path ev = ''/cache-stats'' then handleCacheStats P now c
      else proxyM3U8 P e ev)"

section \<open>The segment server (src/routes/ts-proxy.ts)\<close>

text \<open>
  The default export of ts-proxy.ts (lines 7-86): the reply and the cache after the
  request.
\<close>

definition ts_proxy_handler ::
  "platform \<Rightarrow> env \<Rightarrow> int \<Rightarrow> segment_cache \<Rightarrow> event \<Rightarrow> reply \<times> segment_cache" where
  "ts_proxy_handler P e now c ev =
     (if isPreflightRequest ev then (Reply_cors, c)
      else if DISABLE_M3U8 e then (Reply_error 404 ''TS proxying is disabled'', c)
      else
        (case query_url ev of
           None \<Rightarrow> (Reply_error 400 ''URL parameter is required'', c)
         | Some url \<Rightarrow>
             if url = [] then (Reply_error 400 ''URL parameter is required'', c)
             else
               (case parse_headers (JSON_parse P) (query_headers ev) of
                  None \<Rightarrow> (Reply_error 400 ''Invalid headers format'', c)
                | Some hdrs \<Rightarrow>
                    (case (if \<not> DISABLE_CACHE e
                           then getCachedSegment (DISABLE_CACHE e) now url c
                           else (None, c)) of
                       (Some cachedSegment, c') \<Rightarrow>
                         (Reply_segment
                            (case map_of (headers cachedSegment) ''content-type'' of
                               Some t \<Rightarrow> if t \<noteq> [] then t else ''video/mp2t''
                             | None \<Rightarrow> ''video/mp2t'')
                            (data cachedSegment), c')
                     | (None, c') \<Rightarrow>
                         (case fetch P url (origin_headers hdrs) of
                            Fetch_throws m st \<Rightarrow>
                              (Reply_error
                                 (case st of
                                    Some n \<Rightarrow> if n \<noteq> 0 then n else 500
                                  | None \<Rightarrow> 500)
                                 (if m \<noteq> [] then m else ''Error proxying TS file''), c')
                          | Fetch_response r \<Rightarrow>
                              if \<not> ok r then
                                (Reply_error 500
                                   (''Failed to fetch TS file: '' @ show_nat (status r) @
                                    '' '' @ statusText r), c')
                              else (Reply_segment ''video/mp2t'' (body r), c'))))))"



section \<open>A sample runtime for the worked examples\<close>

text \<open>
  \<open>sample_parse\<close> is \<open>JSON.parse\<close> at four texts: \<open>{}\<close>, \<open>null\<close>, \<open>7\<close> and \<open>"ab"\<close>;
  at every other text it throws, as \<open>JSON.parse\<close> does at \<open>{bad json\<close>.
  \<open>sample_stringify\<close> is \<open>JSON.stringify\<close> on \<open>null\<close>, booleans, natural numbers,
  strings with nothing to escape, and the empty array and object; the examples use no
  other value.
\<close>

definition sample_parse :: json_parse where
  "sample_parse t =
     (if t = ''{}'' then Some (JObj [])
      else if t = ''null'' then Some JNull
      else if t = ''7'' then Some (JNum 7)
      else if t = [CHR 0x22, CHR ''a'', CHR ''b'', CHR 0x22] then Some (JStr ''ab'')
      else None)"

definition sample_stringify :: json_stringify where
  "sample_stringify v =
     (case v of
        JNull \<Rightarrow> ''null''
      | JBool b \<Rightarrow> (if b then ''true'' else ''false'')
      | JNum n \<Rightarrow> show_nat (nat n)
      | JStr t \<Rightarrow> CHR 0x22 # t @ [CHR 0x22]
      | JArr xs \<Rightarrow> ''[]''
      | JObj members \<Rightarrow> ''{}'')"

text \<open>
  Three playlists: a media playlist with a key directive, an alternate-media directive
  and one segment; the master playlist of the specification's end-to-end example; and a
  media playlist whose second line is \<open>http://\<close>.
\<close>

definition sample_media_playlist :: string where
  "sample_media_playlist =
     join_nl
       [''#EXTM3U'',
        ''#EXT-X-KEY:METHOD=AES-128,URI='' @ [CHR 0x22] @ ''https://keys.example/k1'' @ [CHR 0x22],
        ''#EXT-X-MEDIA:TYPE=AUDIO,URI='' @ [CHR 0x22] @ ''https://cdn.example/a/en.m3u8'' @ [CHR 0x22],
        ''#EXTINF:4.0,'',
        ''seg1.ts'',
        []]"

definition sample_master_playlist :: string where
  "sample_master_playlist =
     join_nl
       [''#EXTM3U'',
        ''#EXT-X-STREAM-INF:RESOLUTION=1920x1080'',
        ''hi.m3u8'',
        ''#EXT-X-STREAM-INF:RESOLUTION=640x360'',
        ''lo.m3u8'',
        []]"

definition sample_bad_playlist :: string where
  "sample_bad_playlist = join_nl [''#EXTM3U'', ''http://'', []]"

text \<open>A media playlist with a segment line that resolves and one that does not.\<close>

definition sample_mixed_playlist :: string where
  "sample_mixed_playlist = join_nl [''#EXTM3U'', ''seg1.ts'', ''http://'', []]"

text \<open>An origin that serves the three playlists and one segment, and fails elsewhere.\<close>

definition sample_fetch :: fetch_fn where
  "sample_fetch u h =
     (if u = ''https://cdn.example/a/media.m3u8''
        then Fetch_response \<lparr>ok = True, status = 200, statusText = ''OK'',
                              body = sample_media_playlist\<rparr>
      else if u = ''https://cdn.example/a/master.m3u8''
        then Fetch_response \<lparr>ok = True, status = 200, statusText = ''OK'',
                              body = sample_master_playlist\<rparr>
      else if u = ''https://cdn.example/a/bad.m3u8''
        then Fetch_response \<lparr>ok = True, status = 200, statusText = ''OK'',
                              body = sample_bad_playlist\<rparr>
      else if u = ''https://cdn.example/a/seg1.ts''
        then Fetch_response \<lparr>ok = True, status = 200, statusText = ''OK'', body = ''DATA''\<rparr>
      else Fetch_throws ''fetch failed'' None)"

definition sample_platform :: platform where
  "sample_platform =
     \<lparr>URL_new = sample_URL, JSON_parse = sample_parse, JSON_stringify = sample_stringify,
      fetch = sample_fetch, toFixed2 = (\<lambda>x. ''0.00'')\<rparr>"

definition sample_env :: env where
  "sample_env = \<lparr>DISABLE_M3U8 = False, DISABLE_CACHE = False\<rparr>"

text \<open>A request for \<open>url\<close> with no \<open>headers\<close> parameter, received at \<open>https://proxy.example\<close>.\<close>

definition sample_event :: "string \<Rightarrow> string \<Rightarrow> event" where
  "sample_event p url =
     \<lparr>isPreflightRequest = False, path = p, query_url = Some url, query_headers = None,
      requestHost = ''proxy.example'', requestProtocol = ''https''\<rparr>"

section \<open>Facts about the cache\<close>

lemma fold_delete_filter:
  "fold (\<lambda>(url, entry) m. if P entry then Map_delete url m else m) xs m =
   filter (\<lambda>(k, v). \<not> (\<exists>e. (k, e) \<in> set xs \<and> P e)) m"
proof (induction xs arbitrary: m)
  case Nil
  then show ?case by simp
next
  case (Cons x xs)
  obtain u e where x: "x = (u, e)" by (cases x)
  show ?case
    unfolding x
    by (auto simp: Cons.IH Map_delete_def intro!: filter_cong)
qed

lemma cleanupCache_expired_filter:
  assumes "distinct (map fst c)"
  shows "cleanupCache_expired now c =
         filter (\<lambda>(k, v). \<not> now - timestamp v > CACHE_EXPIRY_MS) c"
proof -
  have "\<And>k v. (k, v) \<in> set c \<Longrightarrow>
          (\<exists>e. (k, e) \<in> set c \<and> now - timestamp e > CACHE_EXPIRY_MS) =
          (now - timestamp v > CACHE_EXPIRY_MS)"
    using assms by (metis eq_key_imp_eq_value)
  then show ?thesis
    unfolding cleanupCache_expired_def fold_delete_filter
    by (intro filter_cong) auto
qed

lemma distinct_keys_filter:
  "distinct (map fst c) \<Longrightarrow> distinct (map fst (filter P c))"
  by (simp add: distinct_map_filter)

lemma distinct_keys_expired:
  "distinct (map fst c) \<Longrightarrow> distinct (map fst (cleanupCache_expired now c))"
  by (simp add: cleanupCache_expired_filter distinct_keys_filter)

lemma fold_delete_keys:
  "fold (\<lambda>(url, entry) m. Map_delete url m) xs m = filter (\<lambda>(k, v). k \<notin> fst ` set xs) m"
proof -
  have "fold (\<lambda>(url, entry) m. Map_delete url m) xs m =
        fold (\<lambda>(url, entry) m. if (\<lambda>_. True) entry then Map_delete url m else m) xs m"
    by simp
  also have "\<dots> = filter (\<lambda>(k, v). \<not> (\<exists>e. (k, e) \<in> set xs \<and> True)) m"
    by (rule fold_delete_filter)
  also have "\<dots> = filter (\<lambda>(k, v). k \<notin> fst ` set xs) m"
    by (rule filter_cong) (auto simp: image_iff)
  finally show ?thesis .
qed

lemma evict_as_filter:
  assumes d: "distinct (map fst c1)" and sub: "set xs \<subseteq> set c1"
  shows "fold (\<lambda>(url, entry) m. Map_delete url m) xs c1 = filter (\<lambda>x. x \<notin> set xs) c1"
proof -
  have "\<And>k v. (k, v) \<in> set c1 \<Longrightarrow> (k \<in> fst ` set xs) = ((k, v) \<in> set xs)"
  proof -
    fix k v assume kv: "(k, v) \<in> set c1"
    show "(k \<in> fst ` set xs) = ((k, v) \<in> set xs)"
    proof
      assume "k \<in> fst ` set xs"
      then obtain v' where v': "(k, v') \<in> set xs" by auto
      with sub have "(k, v') \<in> set c1" by auto
      with d kv have "v' = v" by (metis eq_key_imp_eq_value)
      with v' show "(k, v) \<in> set xs" by simp
    next
      assume "(k, v) \<in> set xs"
      then show "k \<in> fst ` set xs" by force
    qed
  qed
  then show ?thesis
    unfolding fold_delete_keys by (intro filter_cong) auto
qed

text \<open>The second phase of \<open>cleanupCache\<close>, on a cache above capacity.\<close>

lemma evict_oldest:
  fixes c1 :: segment_cache
  assumes d: "distinct (map fst c1)" and n: "n \<le> length c1"
  defines "s \<equiv> sort_key (\<lambda>(url, entry). timestamp entry) c1"
  defines "r \<equiv> fold (\<lambda>(url, entry) m. Map_delete url m) (take n s) c1"
  shows "length r = length c1 - n"
    and "set r = set (drop n s)"
    and "set c1 - set r = set (take n s)"
    and "\<forall>x\<in>set (take n s). \<forall>y\<in>set r. timestamp (snd x) \<le> timestamp (snd y)"
proof -
  have dc: "distinct c1" using d by (simp add: distinct_map)
  have ds: "distinct s" and ss: "set s = set c1" and ls: "length s = length c1"
    using dc by (simp_all add: s_def)
  have sub: "set (take n s) \<subseteq> set c1" using ss by (metis set_take_subset)
  have r: "r = filter (\<lambda>x. x \<notin> set (take n s)) c1"
    unfolding r_def by (rule evict_as_filter [OF d sub])
  have disj: "set (take n s) \<inter> set (drop n s) = {}"
    using ds by (metis append_take_drop_id distinct_append)
  have un: "set (take n s) \<union> set (drop n s) = set c1"
    using ss by (metis append_take_drop_id set_append)
  show sr: "set r = set (drop n s)"
    using disj un by (auto simp: r)
  show "set c1 - set r = set (take n s)"
    using disj un sr by auto
  have "distinct r" using dc by (simp add: r)
  then have "length r = card (set r)" by (simp add: distinct_card)
  also have "\<dots> = length (drop n s)"
    using ds by (simp add: sr distinct_card)
  finally show "length r = length c1 - n" by (simp add: ls)
  have "sorted (map (\<lambda>(url, entry). timestamp entry) s)"
    by (simp add: s_def)
  then have "sorted (map (\<lambda>(url, entry). timestamp entry) (take n s @ drop n s))"
    by simp
  then have "\<forall>x\<in>set (take n s). \<forall>y\<in>set (drop n s).
               (\<lambda>(url, entry). timestamp entry) x \<le> (\<lambda>(url, entry). timestamp entry) y"
    unfolding map_append sorted_append by auto
  then show "\<forall>x\<in>set (take n s). \<forall>y\<in>set r. timestamp (snd x) \<le> timestamp (snd y)"
    by (simp add: sr split_def)
qed

lemma Map_get_set_same: "Map_get url (Map_set url e c) = Some e"
proof (cases "url \<in> fst ` set c")
  case True
  have "\<And>xs. url \<in> fst ` set xs \<Longrightarrow>
          map_of (map (\<lambda>(k, v). if k = url then (k, e) else (k, v)) xs) url = Some e"
  proof -
    fix xs :: segment_cache
    show "url \<in> fst ` set xs \<Longrightarrow>
          map_of (map (\<lambda>(k, v). if k = url then (k, e) else (k, v)) xs) url = Some e"
      by (induction xs) auto
  qed
  with True show ?thesis by (simp add: Map_get_def Map_set_def)
next
  case False
  then have "map_of c url = None" by (simp add: map_of_eq_None_iff)
  with False show ?thesis by (simp add: Map_get_def Map_set_def map_add_def)
qed

lemma Map_get_delete_same: "Map_get url (Map_delete url c) = None"
  by (induction c) (auto simp: Map_get_def Map_delete_def)

lemma Map_get_delete_other: "k \<noteq> url \<Longrightarrow> Map_get k (Map_delete url c) = Map_get k c"
  by (induction c) (auto simp: Map_get_def Map_delete_def)

lemma length_Map_delete: "length (Map_delete url c) \<le> length c"
  by (simp add: Map_delete_def)

lemma set_Map_delete: "set (Map_delete url c) \<subseteq> set c"
  by (auto simp: Map_delete_def)

lemma sample_full_cache_distinct: "distinct (map fst sample_full_cache)"
proof -
  have "inj (\<lambda>i::nat. replicate i (CHR ''a''))"
    by (rule injI) (metis length_replicate)
  then have "distinct (map (\<lambda>i::nat. replicate i (CHR ''a'')) [0..<2001])"
    by (simp add: distinct_map inj_on_def)
  then show ?thesis by (simp add: sample_full_cache_def comp_def)
qed

lemma sample_full_cache_fresh:
  "cleanupCache_expired 0 sample_full_cache = sample_full_cache"
proof -
  have "\<forall>x\<in>set sample_full_cache. (\<lambda>(k, v). \<not> 0 - timestamp v > CACHE_EXPIRY_MS) x"
    by (auto simp: sample_full_cache_def CACHE_EXPIRY_MS_def)
  then show ?thesis
    by (simp add: cleanupCache_expired_filter [OF sample_full_cache_distinct])
qed

lemma sample_full_cache_length: "length sample_full_cache = 2001"
  by (simp add: sample_full_cache_def)

section \<open>Facts about the URL pattern\<close>

lemma scheme_prefix_Some:
  "scheme_prefix s = Some (sch, r) \<Longrightarrow> s = sch @ r \<and> sch \<noteq> []"
  by (induction s rule: scheme_prefix.induct) (auto split: if_splits list.splits)

lemma url_pattern_scheme_nonempty:
  "url_pattern s = Some (Some sch, host, port, rest) \<Longrightarrow> sch \<noteq> []"
  by (auto simp: url_pattern_def split: option.splits if_splits dest: scheme_prefix_Some)

lemma scheme_prefix_head:
  "scheme_prefix s = Some (sch, r) \<Longrightarrow> \<exists>c cs. s = c # cs \<and> c \<in> set ''hH''"
  by (induction s rule: scheme_prefix.induct) (auto split: if_splits)

lemma after_host_at_tail: "at_tail r \<Longrightarrow> after_host r \<noteq> None"
  by (auto simp: after_host_def split: option.splits)

lemma host_lazy_total: "host_lazy acc r \<noteq> None"
proof (induction r arbitrary: acc)
  case Nil
  have "after_host [] \<noteq> None" by (rule after_host_at_tail) (simp add: at_tail_def)
  then show ?case by (auto split: option.splits)
next
  case (Cons c cs)
  show ?case
  proof (cases "after_host (c # cs)")
    case None
    then have "\<not> at_tail (c # cs)" using after_host_at_tail by blast
    then have "c \<noteq> CHR ''/'' \<and> c \<noteq> CHR ''?''" by (simp add: at_tail_def)
    with None Cons show ?thesis by simp
  next
    case (Some a)
    then show ?thesis by (cases a) simp
  qed
qed

lemma host_group_matches:
  "(host_group r \<noteq> None) = (\<exists>c cs. r = c # cs \<and> c \<noteq> CHR ''/'' \<and> c \<noteq> CHR ''?'')"
proof (cases r)
  case Nil
  then show ?thesis by (simp add: host_group_def)
next
  case (Cons c cs)
  with host_lazy_total [of "[c]" cs] show ?thesis by (simp add: host_group_def)
qed

text \<open>
  The inputs the pattern matches: those that start with a character other than a slash
  and a question mark, and those that start with two slashes followed by such a character.
\<close>

lemma url_pattern_matches:
  "(url_pattern s \<noteq> None) =
     ((\<exists>c cs. s = c # cs \<and> c \<noteq> CHR ''/'' \<and> c \<noteq> CHR ''?'') \<or>
      (\<exists>c cs. s = ''//'' @ c # cs \<and> c \<noteq> CHR ''/'' \<and> c \<noteq> CHR ''?''))"
proof -
  have slashes: "(prefix ''//'' s \<and> host_group (drop 2 s) \<noteq> None) =
                 (\<exists>c cs. s = ''//'' @ c # cs \<and> c \<noteq> CHR ''/'' \<and> c \<noteq> CHR ''?'')"
  proof (cases "prefix ''//'' s")
    case True
    then obtain zs where zs: "s = ''//'' @ zs" by (auto simp: prefix_def)
    then have "drop 2 s = zs" by simp
    with True zs host_group_matches [of zs] show ?thesis by simp
  next
    case False
    then show ?thesis by (auto simp: prefix_def)
  qed
  have third: "(host_group s \<noteq> None) = (\<exists>c cs. s = c # cs \<and> c \<noteq> CHR ''/'' \<and> c \<noteq> CHR ''?'')"
    by (rule host_group_matches)
  have first: "\<And>sch r. scheme_prefix s = Some (sch, r) \<Longrightarrow> host_group s \<noteq> None"
  proof -
    fix sch r assume "scheme_prefix s = Some (sch, r)"
    then obtain c cs where "s = c # cs" "c \<in> set ''hH''"
      using scheme_prefix_head by blast
    then show "host_group s \<noteq> None"
      unfolding host_group_matches by auto
  qed
  have "(url_pattern s \<noteq> None) =
        (host_group s \<noteq> None \<or> (prefix ''//'' s \<and> host_group (drop 2 s) \<noteq> None))"
    using first by (auto simp: url_pattern_def split: option.splits)
  then show ?thesis unfolding slashes third by blast
qed

lemma port_digits_sound:
  "port_digits n r = Some (ds, t) \<Longrightarrow>
   r = ds @ t \<and> length ds \<le> n \<and> (\<forall>d\<in>set ds. is_digit d) \<and> at_tail t"
proof (induction n r arbitrary: ds t rule: port_digits.induct)
  case (1 r)
  then show ?case by (auto split: if_splits)
next
  case (2 n)
  then show ?case by (auto simp: at_tail_def)
next
  case (3 n c cs)
  show ?case
  proof (cases "is_digit c")
    case True
    show ?thesis
    proof (cases "port_digits n cs")
      case None
      with True 3 show ?thesis by (auto split: if_splits)
    next
      case (Some a)
      obtain ds' t' where a: "a = (ds', t')" by (cases a)
      from "3.IH" [OF True] Some a have
        "cs = ds' @ t' \<and> length ds' \<le> n \<and> (\<forall>d\<in>set ds'. is_digit d) \<and> at_tail t'"
        by simp
      with True Some a "3.prems" show ?thesis by auto
    qed
  next
    case False
    with 3 show ?thesis by (auto split: if_splits)
  qed
qed

lemma after_host_sound:
  "after_host r = Some (p, t) \<Longrightarrow>
   at_tail t \<and>
   (case p of
      None \<Rightarrow> r = t
    | Some ds \<Rightarrow> r = CHR '':'' # ds @ t \<and> length ds \<le> 5 \<and> (\<forall>d\<in>set ds. is_digit d))"
  by (cases r)
    (auto simp: after_host_def port_group_def
      split: option.splits if_splits dest: port_digits_sound)

lemma host_lazy_sound:
  "host_lazy acc r = Some (h, p, t) \<Longrightarrow>
   \<exists>more. h = acc @ more \<and> CHR ''/'' \<notin> set more \<and> CHR ''?'' \<notin> set more \<and>
     at_tail t \<and>
     (case p of
        None \<Rightarrow> r = more @ t
      | Some ds \<Rightarrow> r = more @ CHR '':'' # ds @ t \<and> length ds \<le> 5 \<and> (\<forall>d\<in>set ds. is_digit d))"
proof (induction r arbitrary: acc)
  case Nil
  then obtain p' t' where "after_host [] = Some (p', t')" "h = acc" "p = p'" "t = t'"
    by (auto split: option.splits)
  with after_host_sound [of "[]" p t] show ?case
    by (cases p) auto
next
  case (Cons c cs)
  show ?case
  proof (cases "after_host (c # cs)")
    case None
    with Cons.prems have nsep: "c \<noteq> CHR ''/''" "c \<noteq> CHR ''?''"
      and rec: "host_lazy (acc @ [c]) cs = Some (h, p, t)"
      by (auto split: if_splits)
    from Cons.IH [OF rec] obtain more where
      m: "h = (acc @ [c]) @ more" "CHR ''/'' \<notin> set more" "CHR ''?'' \<notin> set more" "at_tail t"
        "(case p of None \<Rightarrow> cs = more @ t
          | Some ds \<Rightarrow> cs = more @ CHR '':'' # ds @ t \<and> length ds \<le> 5 \<and> (\<forall>d\<in>set ds. is_digit d))"
      by blast
    have "h = acc @ (c # more) \<and> CHR ''/'' \<notin> set (c # more) \<and> CHR ''?'' \<notin> set (c # more) \<and>
          at_tail t \<and>
          (case p of None \<Rightarrow> c # cs = (c # more) @ t
           | Some ds \<Rightarrow> c # cs = (c # more) @ CHR '':'' # ds @ t \<and> length ds \<le> 5 \<and>
               (\<forall>d\<in>set ds. is_digit d))"
      using m nsep by (cases p) auto
    then show ?thesis by blast
  next
    case (Some a)
    obtain p' t' where a: "a = (p', t')" by (cases a)
    with Some Cons.prems have "h = acc" "p = p'" "t = t'" by auto
    with Some a after_host_sound [of "c # cs" p t] have
      "h = acc @ [] \<and> CHR ''/'' \<notin> set [] \<and> CHR ''?'' \<notin> set [] \<and> at_tail t \<and>
       (case p of None \<Rightarrow> c # cs = [] @ t
        | Some ds \<Rightarrow> c # cs = [] @ CHR '':'' # ds @ t \<and> length ds \<le> 5 \<and>
            (\<forall>d\<in>set ds. is_digit d))"
      by (cases p) auto
    then show ?thesis by blast
  qed
qed

lemma host_group_sound:
  assumes "host_group r = Some (h, p, t)"
  shows "r = h @ (case p of None \<Rightarrow> [] | Some ds \<Rightarrow> CHR '':'' # ds) @ t \<and>
         h \<noteq> [] \<and> CHR ''/'' \<notin> set h \<and> CHR ''?'' \<notin> set h \<and> at_tail t \<and>
         (\<forall>ds. p = Some ds \<longrightarrow> length ds \<le> 5 \<and> (\<forall>d\<in>set ds. is_digit d))"
proof -
  from assms obtain c cs where r: "r = c # cs" and c: "c \<noteq> CHR ''/''" "c \<noteq> CHR ''?''"
    and hl: "host_lazy [c] cs = Some (h, p, t)"
    by (cases r) (auto simp: host_group_def split: if_splits)
  from host_lazy_sound [OF hl] obtain more where
    m: "h = [c] @ more" "CHR ''/'' \<notin> set more" "CHR ''?'' \<notin> set more" "at_tail t"
      "(case p of None \<Rightarrow> cs = more @ t
        | Some ds \<Rightarrow> cs = more @ CHR '':'' # ds @ t \<and> length ds \<le> 5 \<and> (\<forall>d\<in>set ds. is_digit d))"
    by blast
  then show ?thesis using r c by (cases p) auto
qed

text \<open>
  A match splits the input: what the first group consumed, the host, the port with its
  colon, and the tail. The host is not empty and holds no slash and no question mark, a
  captured port is at most five digits, and the tail is empty or starts with a slash or
  a question mark.
\<close>

lemma url_pattern_sound:
  assumes "url_pattern s = Some (sch, h, p, t)"
  shows "\<exists>pre. s = pre @ h @ (case p of None \<Rightarrow> [] | Some ds \<Rightarrow> CHR '':'' # ds) @ t \<and>
           (case sch of
              Some x \<Rightarrow> pre = x @ ''//'' \<and> (\<exists>r. scheme_prefix s = Some (x, r))
            | None \<Rightarrow> pre = [] \<or> pre = ''//'') \<and>
           h \<noteq> [] \<and> CHR ''/'' \<notin> set h \<and> CHR ''?'' \<notin> set h \<and> at_tail t \<and>
           (\<forall>ds. p = Some ds \<longrightarrow> length ds \<le> 5 \<and> (\<forall>d\<in>set ds. is_digit d))"
proof -
  let ?port = "case p of None \<Rightarrow> [] | Some ds \<Rightarrow> CHR '':'' # ds"
  let ?good = "h \<noteq> [] \<and> CHR ''/'' \<notin> set h \<and> CHR ''?'' \<notin> set h \<and> at_tail t \<and>
               (\<forall>ds. p = Some ds \<longrightarrow> length ds \<le> 5 \<and> (\<forall>d\<in>set ds. is_digit d))"
  from assms consider
      (scheme) x r where "sch = Some x" "scheme_prefix s = Some (x, r)" "prefix ''//'' r"
        "host_group (drop 2 r) = Some (h, p, t)"
    | (slashes) "sch = None" "prefix ''//'' s" "host_group (drop 2 s) = Some (h, p, t)"
    | (bare) "sch = None" "host_group s = Some (h, p, t)"
    by (auto simp: url_pattern_def split: option.splits if_splits)
  then show ?thesis
  proof cases
    case scheme
    from scheme(2) have s: "s = x @ r" by (simp add: scheme_prefix_Some)
    from scheme(3) obtain r' where r: "r = ''//'' @ r'" by (auto simp: prefix_def)
    then have "drop 2 r = r'" by simp
    with scheme(4) have "r' = h @ ?port @ t \<and> ?good"
      using host_group_sound by blast
    with s r scheme(1,2) have
      "s = (x @ ''//'') @ h @ ?port @ t \<and>
       (case sch of Some x' \<Rightarrow> x @ ''//'' = x' @ ''//'' \<and> (\<exists>r. scheme_prefix s = Some (x', r))
        | None \<Rightarrow> x @ ''//'' = [] \<or> x @ ''//'' = ''//'') \<and> ?good"
      by simp
    then show ?thesis by blast
  next
    case slashes
    from slashes(2) obtain r' where r: "s = ''//'' @ r'" by (auto simp: prefix_def)
    then have "drop 2 s = r'" by simp
    with slashes(3) have "r' = h @ ?port @ t \<and> ?good"
      using host_group_sound by blast
    with r slashes(1) have
      "s = ''//'' @ h @ ?port @ t \<and>
       (case sch of Some x \<Rightarrow> ''//'' = x @ ''//'' \<and> (\<exists>r. scheme_prefix s = Some (x, r))
        | None \<Rightarrow> ''//'' = [] \<or> ''//'' = ''//'') \<and> ?good"
      by simp
    then show ?thesis by blast
  next
    case bare
    from bare(2) have "s = h @ ?port @ t \<and> ?good"
      using host_group_sound by blast
    with bare(1) have
      "s = [] @ h @ ?port @ t \<and>
       (case sch of Some x \<Rightarrow> [] = x @ ''//'' \<and> (\<exists>r. scheme_prefix s = Some (x, r))
        | None \<Rightarrow> [] = [] \<or> [] = ''//'') \<and> ?good"
      by simp
    then show ?thesis by blast
  qed
qed

lemma url_pattern_port_99999:
  "url_pattern ''example.com:99999'' = Some (None, ''example.com'', Some ''99999'', [])"
  by code_simp

lemma url_pattern_port_443:
  "url_pattern ''example.com:443/v/a.m3u8'' =
     Some (None, ''example.com'', Some ''443'', ''/v/a.m3u8'')"
  by code_simp

lemma url_pattern_no_port:
  "url_pattern ''example.com/v/a.m3u8'' = Some (None, ''example.com'', None, ''/v/a.m3u8'')"
  by code_simp

section \<open>Facts about lines and loops\<close>

lemma split_nl_nonempty: "split_nl s \<noteq> []"
  by (induction s) (auto split: list.splits)

lemma split_nl_no_newline: "l \<in> set (split_nl s) \<Longrightarrow> CHR 0x0A \<notin> set l"
proof (induction s arbitrary: l)
  case Nil
  then show ?case by simp
next
  case (Cons c cs)
  show ?case
  proof (cases "c = CHR 0x0A")
    case True
    with Cons show ?thesis by auto
  next
    case False
    obtain x xs where sp: "split_nl cs = x # xs"
      using split_nl_nonempty by (cases "split_nl cs") auto
    with Cons False show ?thesis by auto
  qed
qed

lemma split_nl_append_line:
  "CHR 0x0A \<notin> set l \<Longrightarrow> split_nl (l @ CHR 0x0A # s) = l # split_nl s"
  by (induction l) auto

lemma split_nl_line: "CHR 0x0A \<notin> set l \<Longrightarrow> split_nl l = [l]"
  by (induction l) auto

lemma split_join_nl:
  "xs \<noteq> [] \<Longrightarrow> \<forall>l\<in>set xs. CHR 0x0A \<notin> set l \<Longrightarrow> split_nl (join_nl xs) = xs"
proof (induction xs rule: join_nl.induct)
  case 1
  then show ?case by simp
next
  case (2 l)
  then show ?case by (simp add: split_nl_line)
next
  case (3 l m ls)
  then show ?case by (simp add: split_nl_append_line)
qed

lemma join_split_nl: "join_nl (split_nl s) = s"
proof (induction s)
  case Nil
  then show ?case by simp
next
  case (Cons c cs)
  obtain x xs where sp: "split_nl cs = x # xs"
    using split_nl_nonempty by (cases "split_nl cs") auto
  with Cons show ?case by (cases xs) auto
qed

lemma String_includes_iff: "String_includes s p = (\<exists>a b. s = a @ p @ b)"
proof (induction s)
  case Nil
  then show ?case by auto
next
  case (Cons c cs)
  show ?case
  proof
    assume "String_includes (c # cs) p"
    then consider "prefix p (c # cs)" | "String_includes cs p" by auto
    then show "\<exists>a b. c # cs = a @ p @ b"
    proof cases
      case 1
      then obtain b where "c # cs = p @ b" by (auto simp: prefix_def)
      then have "c # cs = [] @ p @ b" by simp
      then show ?thesis by blast
    next
      case 2
      with Cons obtain a b where "cs = a @ p @ b" by auto
      then have "c # cs = (c # a) @ p @ b" by simp
      then show ?thesis by blast
    qed
  next
    assume "\<exists>a b. c # cs = a @ p @ b"
    then obtain a b where ab: "c # cs = a @ p @ b" by auto
    show "String_includes (c # cs) p"
    proof (cases a)
      case Nil
      with ab have "prefix p (c # cs)" by (simp add: prefix_def)
      then show ?thesis by simp
    next
      case (Cons x a')
      with ab have "cs = a' @ p @ b" by simp
      with Cons.IH show ?thesis by auto
    qed
  qed
qed

lemma master_loop_Inr:
  "master_loop f acc ls = Inr out \<Longrightarrow>
   \<exists>new. out = acc @ new \<and> list_all2 (\<lambda>l n. f l = Inr n) ls new"
proof (induction ls arbitrary: acc)
  case Nil
  then show ?case by simp
next
  case (Cons l ls)
  then obtain n where n: "f l = Inr n" by (cases "f l") auto
  with Cons.prems have "master_loop f (acc @ [n]) ls = Inr out" by simp
  from Cons.IH [OF this] obtain new where
    "out = (acc @ [n]) @ new" "list_all2 (\<lambda>l n. f l = Inr n) ls new" by blast
  with n have "out = acc @ (n # new) \<and> list_all2 (\<lambda>l n. f l = Inr n) (l # ls) (n # new)"
    by simp
  then show ?case by blast
qed

lemma master_loop_Inl:
  "x \<in> set ls \<Longrightarrow> f x = Inl m \<Longrightarrow> \<exists>m'. master_loop f acc ls = Inl m'"
proof (induction ls arbitrary: acc)
  case Nil
  then show ?case by simp
next
  case (Cons l ls)
  then show ?case by (cases "f l") auto
qed

lemma media_loop_Inr:
  "media_loop f acc segs calls ls = (calls', Inr (out, segs')) \<Longrightarrow>
   \<exists>new. out = acc @ new \<and>
     list_all2 (\<lambda>l n. \<exists>cs ss. f l = (cs, Inr (n, ss))) ls new \<and>
     segs' = segs @ concat (map (\<lambda>l. case snd (f l) of Inr (n, ss) \<Rightarrow> ss | Inl m \<Rightarrow> []) ls) \<and>
     calls' = calls @ concat (map (\<lambda>l. fst (f l)) ls)"
proof (induction ls arbitrary: acc segs calls)
  case Nil
  then show ?case by simp
next
  case (Cons l ls)
  obtain cs r where fl: "f l = (cs, r)" by (cases "f l")
  with Cons.prems obtain n ss where r: "r = Inr (n, ss)"
    by (cases r) auto
  with fl Cons.prems have
    "media_loop f (acc @ [n]) (segs @ ss) (calls @ cs) ls = (calls', Inr (out, segs'))"
    by simp
  from Cons.IH [OF this] obtain new where
    new: "out = (acc @ [n]) @ new"
      "list_all2 (\<lambda>l n. \<exists>cs ss. f l = (cs, Inr (n, ss))) ls new"
      "segs' = (segs @ ss) @ concat (map (\<lambda>l. case snd (f l) of Inr (n, ss) \<Rightarrow> ss | Inl m \<Rightarrow> []) ls)"
      "calls' = (calls @ cs) @ concat (map (\<lambda>l. fst (f l)) ls)"
    by blast
  have "out = acc @ (n # new) \<and>
     list_all2 (\<lambda>l n. \<exists>cs ss. f l = (cs, Inr (n, ss))) (l # ls) (n # new) \<and>
     segs' = segs @ concat (map (\<lambda>l. case snd (f l) of Inr (n, ss) \<Rightarrow> ss | Inl m \<Rightarrow> []) (l # ls)) \<and>
     calls' = calls @ concat (map (\<lambda>l. fst (f l)) (l # ls))"
    using new fl r by simp
  then show ?case by blast
qed

lemma media_loop_Inl:
  "x \<in> set ls \<Longrightarrow> snd (f x) = Inl m \<Longrightarrow> \<exists>cs m'. media_loop f acc segs calls ls = (cs, Inl m')"
proof (induction ls arbitrary: acc segs calls)
  case Nil
  then show ?case by simp
next
  case (Cons l ls)
  obtain cs r where fl: "f l = (cs, r)" by (cases "f l")
  show ?case
  proof (cases r)
    case (Inl a)
    with fl show ?thesis by simp
  next
    case (Inr b)
    obtain n ss where b: "b = (n, ss)" by (cases b)
    from Cons.prems fl Inr have "x \<in> set ls" by auto
    from Cons.IH [OF this Cons.prems(2)] fl Inr b show ?thesis by simp
  qed
qed

lemma media_loop_succeeds:
  "\<forall>l\<in>set ls. \<exists>cs n ss. f l = (cs, Inr (n, ss)) \<Longrightarrow>
   \<exists>calls' out segs'. media_loop f acc segs calls ls = (calls', Inr (out, segs'))"
proof (induction ls arbitrary: acc segs calls)
  case Nil
  then show ?case by simp
next
  case (Cons l ls)
  then obtain cs n ss where "f l = (cs, Inr (n, ss))" by auto
  with Cons show ?case by simp
qed

lemma hex_digit_no_newline: "hex_digit n \<noteq> CHR 0x0A"
proof -
  have "hex_digit n \<in> set ''0123456789ABCDEF''"
    unfolding hex_digit_def by (rule nth_mem) simp
  then show ?thesis by auto
qed

lemma percent_byte_no_newline: "CHR 0x0A \<notin> set (percent_byte b)"
  using hex_digit_no_newline [of b] hex_digit_no_newline [of "b div 16"]
  by (auto simp: percent_byte_def)

lemma uri_unreserved_no_newline: "uri_unreserved c \<Longrightarrow> c \<noteq> CHR 0x0A"
  by (auto simp: uri_unreserved_def)

lemma encode_unit_no_newline: "CHR 0x0A \<notin> set (encode_unit c)"
  using uri_unreserved_no_newline [of c]
  by (auto simp: encode_unit_def percent_byte_no_newline)

lemma encodeURIComponent_no_newline: "CHR 0x0A \<notin> set (encodeURIComponent s)"
  by (simp add: encodeURIComponent_def encode_unit_no_newline)

lemma proxy_url_no_newline:
  "CHR 0x0A \<notin> set base \<Longrightarrow> route \<in> {''/ts-proxy'', ''/m3u8-proxy''} \<Longrightarrow>
   CHR 0x0A \<notin> set (proxy_url stringify base route target hdrs)"
  by (auto simp: proxy_url_def encodeURIComponent_no_newline)

lemma GetSubstitution_chars:
  "set (GetSubstitution m b a r) \<subseteq> set m \<union> set b \<union> set a \<union> set r"
  by (induction m b a r rule: GetSubstitution.induct) auto

lemma String_replace_chars: "set (String_replace s p r) \<subseteq> set s \<union> set p \<union> set r"
proof (cases "index_of s p")
  case None
  then show ?thesis by (auto simp: String_replace_def)
next
  case (Some i)
  have "set (GetSubstitution p (take i s) (drop (i + length p) s) r) \<subseteq>
        set p \<union> set (take i s) \<union> set (drop (i + length p) s) \<union> set r"
    by (rule GetSubstitution_chars)
  moreover have "set (take i s) \<subseteq> set s" "set (drop (i + length p) s) \<subseteq> set s"
    by (rule set_take_subset, rule set_drop_subset)
  ultimately show ?thesis using Some by (auto simp: String_replace_def)
qed

lemma http_url_at_prefix: "http_url_at s = Some u \<Longrightarrow> prefix u s"
proof -
  assume a: "http_url_at s = Some u"
  have pre: "\<And>p n. prefix p s \<Longrightarrow> n = length p \<Longrightarrow>
                prefix (p @ takeWhile url_char (drop n s)) s"
  proof -
    fix p :: string and n assume "prefix p s" and n: "n = length p"
    then obtain r where s: "s = p @ r" by (auto simp: prefix_def)
    have "prefix (takeWhile url_char r) r" by (rule takeWhile_is_prefix)
    then show "prefix (p @ takeWhile url_char (drop n s)) s"
      by (simp add: s n)
  qed
  from a consider "prefix ''https://'' s" "u = ''https://'' @ takeWhile url_char (drop 8 s)"
    | "prefix ''http://'' s" "u = ''http://'' @ takeWhile url_char (drop 7 s)"
    by (auto simp: http_url_at_def split: if_splits)
  then show ?thesis
  proof cases
    case 1
    with pre [of "''https://''" 8] show ?thesis by simp
  next
    case 2
    with pre [of "''http://''" 7] show ?thesis by simp
  qed
qed

lemma find_http_url_chars: "find_http_url s = Some u \<Longrightarrow> set u \<subseteq> set s"
proof (induction s)
  case Nil
  then show ?case by simp
next
  case (Cons c cs)
  show ?case
  proof (cases "http_url_at (c # cs)")
    case None
    with Cons have "set u \<subseteq> set cs" by simp
    then show ?thesis by auto
  next
    case (Some v)
    with Cons.prems have "http_url_at (c # cs) = Some u" by simp
    then have "prefix u (c # cs)" by (rule http_url_at_prefix)
    then show ?thesis by (rule set_mono_prefix)
  qed
qed

lemma media_line_no_newline:
  assumes "CHR 0x0A \<notin> set base" and "CHR 0x0A \<notin> set line"
    and "media_line URL stringify disabled base url hdrs line = (cs, Inr (n, ss))"
  shows "CHR 0x0A \<notin> set n"
proof -
  have key: "\<And>u. find_http_url line = Some u \<Longrightarrow>
     CHR 0x0A \<notin> set (String_replace line u (proxy_url stringify base ''/ts-proxy'' u hdrs))"
  proof -
    fix u assume "find_http_url line = Some u"
    then have "set u \<subseteq> set line" by (rule find_http_url_chars)
    with assms(2) have "CHR 0x0A \<notin> set u" by auto
    moreover have "CHR 0x0A \<notin> set (proxy_url stringify base ''/ts-proxy'' u hdrs)"
      using assms(1) by (simp add: proxy_url_no_newline)
    ultimately show
      "CHR 0x0A \<notin> set (String_replace line u (proxy_url stringify base ''/ts-proxy'' u hdrs))"
      using assms(2) String_replace_chars [of line u "proxy_url stringify base ''/ts-proxy'' u hdrs"]
      by blast
  qed
  show ?thesis
    using assms key
    by (auto simp: media_line_def proxy_url_no_newline
        split: if_splits option.splits parse_outcome.splits)
qed

lemma master_line_no_newline:
  assumes "CHR 0x0A \<notin> set base" and "CHR 0x0A \<notin> set line"
    and "master_line URL stringify base url hdrs line = Inr n"
  shows "CHR 0x0A \<notin> set n"
proof -
  have key: "\<And>u route. find_http_url line = Some u \<Longrightarrow>
     route \<in> {''/ts-proxy'', ''/m3u8-proxy''} \<Longrightarrow>
     CHR 0x0A \<notin> set (String_replace line u (proxy_url stringify base route u hdrs))"
  proof -
    fix u route assume "find_http_url line = Some u" "route \<in> {''/ts-proxy'', ''/m3u8-proxy''}"
    then have "set u \<subseteq> set line" by (simp add: find_http_url_chars)
    with assms(2) have "CHR 0x0A \<notin> set u" by auto
    moreover have "CHR 0x0A \<notin> set (proxy_url stringify base route u hdrs)"
      using assms(1) \<open>route \<in> _\<close> by (rule proxy_url_no_newline)
    ultimately show
      "CHR 0x0A \<notin> set (String_replace line u (proxy_url stringify base route u hdrs))"
      using assms(2) String_replace_chars [of line u "proxy_url stringify base route u hdrs"]
      by blast
  qed
  show ?thesis
    using assms key
    by (auto simp: master_line_def proxy_url_no_newline
        split: if_splits option.splits parse_outcome.splits)
qed

lemma trim_eq_Nil: "(trim s = []) = (\<forall>c\<in>set s. is_space c)"
proof
  assume "trim s = []"
  then have "dropWhile is_space (rev (dropWhile is_space s)) = []"
    by (simp add: trim_def)
  then have "\<forall>c\<in>set (dropWhile is_space s). is_space c"
    by (simp add: dropWhile_eq_Nil_conv)
  moreover have "\<not> (\<forall>c\<in>set s. is_space c) \<Longrightarrow>
                 \<not> (\<forall>c\<in>set (dropWhile is_space s). is_space c)"
  proof -
    assume "\<not> (\<forall>c\<in>set s. is_space c)"
    then have "dropWhile is_space s \<noteq> []" by (simp add: dropWhile_eq_Nil_conv)
    then have "\<not> is_space (hd (dropWhile is_space s))"
      and "hd (dropWhile is_space s) \<in> set (dropWhile is_space s)"
      by (simp_all add: hd_dropWhile)
    then show ?thesis by blast
  qed
  ultimately show "\<forall>c\<in>set s. is_space c" by blast
next
  assume a: "\<forall>c\<in>set s. is_space c"
  then have d: "dropWhile is_space s = []" by (induction s) auto
  show "trim s = []" unfolding trim_def d by simp
qed

lemma startsWith_hash_not_blank: "startsWith line ''#'' \<Longrightarrow> trim line \<noteq> []"
proof -
  assume "startsWith line ''#''"
  then have "CHR ''#'' \<in> set line" by (auto simp: startsWith_def prefix_def)
  moreover have "\<not> is_space (CHR ''#'')" by (simp add: is_space_def)
  ultimately show ?thesis by (auto simp: trim_eq_Nil)
qed

lemma startsWith_media_tag:
  "startsWith line ''#EXT-X-MEDIA:'' \<Longrightarrow>
   startsWith line ''#'' \<and> \<not> startsWith line ''#EXT-X-KEY:''"
  by (auto simp: startsWith_def prefix_def)

lemma media_line_result:
  assumes "media_line URL stringify disabled base url hdrs line = (cs, Inr (n, ss))"
  shows "(trim line = [] \<longrightarrow> n = line) \<and>
         (startsWith line ''#'' \<and> \<not> startsWith line ''#EXT-X-KEY:'' \<longrightarrow> n = line) \<and>
         (trim line \<noteq> [] \<and> \<not> startsWith line ''#'' \<longrightarrow>
            (\<forall>r. parseURL URL line (Some url) = Str r \<and> r \<noteq> [] \<longrightarrow>
                 n = proxy_url stringify base ''/ts-proxy'' r hdrs))"
  using assms startsWith_hash_not_blank [of line]
  by (auto simp: media_line_def split: if_splits option.splits parse_outcome.splits)



lemma media_rewrite_success:
  assumes nm: "\<not> String_includes content ''RESOLUTION=''"
    and rw: "rewrite_manifest URL stringify disabled base url hdrs content =
               (Reply_manifest out, calls)"
  shows "\<exists>newLines segs calls0.
           media_loop (media_line URL stringify disabled base url hdrs) [] [] []
             (split_nl content) = (calls0, Inr (newLines, segs)) \<and>
           out = join_nl newLines \<and>
           calls = calls0 @ (if segs \<noteq> [] \<and> \<not> disabled
                             then [Cleanup, PrefetchAll segs hdrs] else [])"
proof -
  obtain calls0 r where ml:
    "media_loop (media_line URL stringify disabled base url hdrs) [] [] []
       (split_nl content) = (calls0, r)"
    by (cases "media_loop (media_line URL stringify disabled base url hdrs) [] [] []
                 (split_nl content)")
  show ?thesis
  proof (cases r)
    case (Inl m)
    with nm rw ml show ?thesis
      by (simp add: rewrite_manifest_def internal_error_def)
  next
    case (Inr p)
    obtain newLines segs where p: "p = (newLines, segs)" by (cases p)
    with nm rw ml Inr show ?thesis
      by (simp add: rewrite_manifest_def)
  qed
qed

text \<open>
  The media branch returns a manifest exactly when no segment line makes the resolver
  throw.
\<close>

lemma media_rewrite_returns_manifest:
  assumes "\<not> String_includes content ''RESOLUTION=''"
  shows "(\<exists>out calls. rewrite_manifest URL stringify disabled base url hdrs content =
            (Reply_manifest out, calls)) =
         (\<forall>l\<in>set (split_nl content).
            \<not> startsWith l ''#'' \<and> trim l \<noteq> [] \<longrightarrow>
              (\<forall>m. parseURL URL l (Some url) \<noteq> Thrown m))"
proof
  assume "\<exists>out calls. rewrite_manifest URL stringify disabled base url hdrs content =
            (Reply_manifest out, calls)"
  then obtain out calls where rw:
    "rewrite_manifest URL stringify disabled base url hdrs content = (Reply_manifest out, calls)"
    by blast
  show "\<forall>l\<in>set (split_nl content).
            \<not> startsWith l ''#'' \<and> trim l \<noteq> [] \<longrightarrow>
              (\<forall>m. parseURL URL l (Some url) \<noteq> Thrown m)"
  proof (intro ballI impI allI notI)
    fix l m assume l: "l \<in> set (split_nl content)"
      and u: "\<not> startsWith l ''#'' \<and> trim l \<noteq> []"
      and t: "parseURL URL l (Some url) = Thrown m"
    then have "snd (media_line URL stringify disabled base url hdrs l) = Inl m"
      by (simp add: media_line_def)
    from media_loop_Inl [where f = "media_line URL stringify disabled base url hdrs", OF l this]
    obtain cs m' where
      "media_loop (media_line URL stringify disabled base url hdrs) [] [] [] (split_nl content) =
         (cs, Inl m')"
      by blast
    with assms rw show False by (simp add: rewrite_manifest_def internal_error_def)
  qed
next
  assume a: "\<forall>l\<in>set (split_nl content).
            \<not> startsWith l ''#'' \<and> trim l \<noteq> [] \<longrightarrow>
              (\<forall>m. parseURL URL l (Some url) \<noteq> Thrown m)"
  have "\<forall>l\<in>set (split_nl content).
          \<exists>cs n ss. media_line URL stringify disabled base url hdrs l = (cs, Inr (n, ss))"
  proof
    fix l assume "l \<in> set (split_nl content)"
    with a have "\<not> startsWith l ''#'' \<and> trim l \<noteq> [] \<longrightarrow>
              (\<forall>m. parseURL URL l (Some url) \<noteq> Thrown m)" by blast
    then show "\<exists>cs n ss. media_line URL stringify disabled base url hdrs l = (cs, Inr (n, ss))"
      by (cases "parseURL URL l (Some url)")
        (auto simp: media_line_def split: option.splits)
  qed
  from media_loop_succeeds [OF this] obtain calls' out segs' where
    "media_loop (media_line URL stringify disabled base url hdrs) [] [] [] (split_nl content) =
       (calls', Inr (out, segs'))"
    by blast
  with assms show "\<exists>out calls. rewrite_manifest URL stringify disabled base url hdrs content =
            (Reply_manifest out, calls)"
    by (simp add: rewrite_manifest_def)
qed

lemma thrown_line_fails:
  assumes x: "x \<in> set (split_nl content)"
    and uri: "\<not> startsWith x ''#''" "trim x \<noteq> []"
    and url: "url \<noteq> []"
    and thr: "URL x (Some url) = URL_throws m"
  shows "\<exists>m' calls. rewrite_manifest URL stringify disabled base url hdrs content =
           (internal_error m', calls)"
proof (cases "String_includes content ''RESOLUTION=''")
  case True
  have "master_line URL stringify base url hdrs x = Inl m"
    using uri url thr by (simp add: master_line_def parseURL_def)
  from master_loop_Inl [where f = "master_line URL stringify base url hdrs", OF x this] obtain m' where
    "master_loop (master_line URL stringify base url hdrs) [] (split_nl content) = Inl m'"
    by blast
  with True show ?thesis by (auto simp: rewrite_manifest_def)
next
  case False
  have "snd (media_line URL stringify disabled base url hdrs x) = Inl m"
    using uri url thr by (simp add: media_line_def parseURL_def)
  from media_loop_Inl [where f = "media_line URL stringify disabled base url hdrs", OF x this] obtain cs m' where
    "media_loop (media_line URL stringify disabled base url hdrs) [] [] [] (split_nl content) =
       (cs, Inl m')"
    by blast
  with False show ?thesis by (auto simp: rewrite_manifest_def)
qed

section \<open>Facts about the handlers\<close>

lemma ts_proxy_never_inserts: "set (snd (ts_proxy_handler P e now c ev)) \<subseteq> set c"
  using set_Map_delete [of "the (query_url ev)" c]
  by (auto simp: ts_proxy_handler_def getCachedSegment_def
      split: option.splits fetch_result.splits if_splits)
















section \<open>The worked examples, evaluated\<close>

lemma sample_media_no_marker: "\<not> String_includes sample_media_playlist ''RESOLUTION=''"
  by code_simp

lemma sample_media_lines:
  "split_nl sample_media_playlist =
     [''#EXTM3U'',
      ''#EXT-X-KEY:METHOD=AES-128,URI='' @ [CHR 0x22] @ ''https://keys.example/k1'' @ [CHR 0x22],
      ''#EXT-X-MEDIA:TYPE=AUDIO,URI='' @ [CHR 0x22] @ ''https://cdn.example/a/en.m3u8'' @ [CHR 0x22],
      ''#EXTINF:4.0,'',
      ''seg1.ts'',
      []]"
  by code_simp

lemma sample_media_rewrite:
  "rewrite_manifest sample_URL sample_stringify False ''https://proxy.example''
     ''https://cdn.example/a/media.m3u8'' (JObj []) sample_media_playlist =
   (Reply_manifest
      (join_nl
         [''#EXTM3U'',
          ''#EXT-X-KEY:METHOD=AES-128,URI='' @ [CHR 0x22] @
            ''https://proxy.example/ts-proxy?url=https%3A%2F%2Fkeys.example%2Fk1&headers=%7B%7D'' @
            [CHR 0x22],
          ''#EXT-X-MEDIA:TYPE=AUDIO,URI='' @ [CHR 0x22] @ ''https://cdn.example/a/en.m3u8'' @ [CHR 0x22],
          ''#EXTINF:4.0,'',
          ''https://proxy.example/ts-proxy?url=https%3A%2F%2Fcdn.example%2Fa%2Fseg1.ts&headers=%7B%7D'',
          []]),
    [Prefetch ''https://keys.example/k1'' (JObj []), Cleanup,
     PrefetchAll [''https://cdn.example/a/seg1.ts''] (JObj [])])"
  by code_simp

lemma sample_master_rewrite:
  "rewrite_manifest sample_URL sample_stringify False ''https://proxy.example''
     ''https://cdn.example/a/master.m3u8'' (JObj []) sample_master_playlist =
   (Reply_manifest
      (join_nl
         [''#EXTM3U'',
          ''#EXT-X-STREAM-INF:RESOLUTION=1920x1080'',
          ''https://proxy.example/m3u8-proxy?url=https%3A%2F%2Fcdn.example%2Fa%2Fhi.m3u8&headers=%7B%7D'',
          ''#EXT-X-STREAM-INF:RESOLUTION=640x360'',
          ''https://proxy.example/m3u8-proxy?url=https%3A%2F%2Fcdn.example%2Fa%2Flo.m3u8&headers=%7B%7D'',
          []]),
    [])"
  by code_simp

lemma sample_bad_request:
  "proxyM3U8 sample_platform sample_env
     (sample_event ''/m3u8-proxy'' ''https://cdn.example/a/bad.m3u8'') =
   (Reply_error 500 ''Invalid URL'', [])"
  by code_simp

lemma sample_segment_url:
  "proxy_url sample_stringify ''https://proxy.example'' ''/ts-proxy''
     ''https://cdn.example/a/seg1.ts'' (JObj []) =
   ''https://proxy.example/ts-proxy?url=https%3A%2F%2Fcdn.example%2Fa%2Fseg1.ts&headers=%7B%7D''"
  by code_simp

lemma sample_segment_resolves:
  "parseURL sample_URL ''seg1.ts'' (Some ''https://cdn.example/a/media.m3u8'') =
     Str ''https://cdn.example/a/seg1.ts''"
  by (simp add: parseURL_def sample_URL_def)


lemma sample_mixed_lines:
  "split_nl sample_mixed_playlist = [''#EXTM3U'', ''seg1.ts'', ''http://'', []]"
  by code_simp

lemma sample_mixed_rewrite:
  "rewrite_manifest sample_URL sample_stringify False ''https://proxy.example''
     ''https://cdn.example/a/media.m3u8'' (JObj []) sample_mixed_playlist =
   (Reply_error 500 ''Invalid URL'', [])"
  by code_simp

section \<open>The media branch when it returns a manifest\<close>

text \<open>
  A manifest without \<open>RESOLUTION=\<close> in its text is a media playlist. When the
  rewriter returns a manifest for it, the output is the list \<open>newLines\<close> joined by line
  feeds, with one line per input line, in the same order. Every blank line and every
  directive line other than a key directive is the input line itself. Every non-blank,
  non-directive line that the resolver resolves to a URL \<open>r\<close> has become
  \<open>{baseProxyUrl}/ts-proxy?url=\<close>, the \<open>encodeURIComponent\<close> of \<open>r\<close>, \<open>&headers=\<close>,
  and the \<open>encodeURIComponent\<close> of the JSON text of the forwarded headers. When the
  proxy base holds no line feed, splitting the output at line feeds gives these lines
  back, so the text has as many lines as the input.
\<close>

lemma media_rewrite_preserves_lines:
  assumes nm: "\<not> String_includes content ''RESOLUTION=''"
    and rw: "rewrite_manifest URL stringify disabled base url hdrs content =
               (Reply_manifest out, calls)"
  shows "\<exists>newLines.
           out = join_nl newLines \<and>
           length newLines = length (split_nl content) \<and>
           (\<forall>i<length newLines.
              (trim (split_nl content ! i) = [] \<longrightarrow> newLines ! i = split_nl content ! i) \<and>
              (startsWith (split_nl content ! i) ''#'' \<and>
               \<not> startsWith (split_nl content ! i) ''#EXT-X-KEY:'' \<longrightarrow>
                 newLines ! i = split_nl content ! i) \<and>
              (trim (split_nl content ! i) \<noteq> [] \<and> \<not> startsWith (split_nl content ! i) ''#'' \<longrightarrow>
                 (\<forall>r. parseURL URL (split_nl content ! i) (Some url) = Str r \<and> r \<noteq> [] \<longrightarrow>
                      newLines ! i =
                        base @ ''/ts-proxy?url='' @ encodeURIComponent r @
                        ''&headers='' @ encodeURIComponent (stringify hdrs)))) \<and>
           (CHR 0x0A \<notin> set base \<longrightarrow> split_nl out = newLines)"
proof -
  let ?f = "media_line URL stringify disabled base url hdrs"
  let ?ls = "split_nl content"
  from media_rewrite_success [OF nm rw] obtain newLines segs calls0 where
    ml: "media_loop ?f [] [] [] ?ls = (calls0, Inr (newLines, segs))"
    and out: "out = join_nl newLines"
    by blast
  from media_loop_Inr [OF ml] have
    la: "list_all2 (\<lambda>l n. \<exists>cs ss. ?f l = (cs, Inr (n, ss))) ?ls newLines"
    by simp
  then have len: "length newLines = length ?ls"
    by (simp add: list_all2_lengthD)
  have each: "\<And>i. i < length newLines \<Longrightarrow> \<exists>cs ss. ?f (?ls ! i) = (cs, Inr (newLines ! i, ss))"
    using la len by (simp add: list_all2_conv_all_nth)
  have props: "\<forall>i<length newLines.
              (trim (?ls ! i) = [] \<longrightarrow> newLines ! i = ?ls ! i) \<and>
              (startsWith (?ls ! i) ''#'' \<and> \<not> startsWith (?ls ! i) ''#EXT-X-KEY:'' \<longrightarrow>
                 newLines ! i = ?ls ! i) \<and>
              (trim (?ls ! i) \<noteq> [] \<and> \<not> startsWith (?ls ! i) ''#'' \<longrightarrow>
                 (\<forall>r. parseURL URL (?ls ! i) (Some url) = Str r \<and> r \<noteq> [] \<longrightarrow>
                      newLines ! i = proxy_url stringify base ''/ts-proxy'' r hdrs))"
  proof (intro allI impI)
    fix i assume "i < length newLines"
    from each [OF this] obtain cs ss where "?f (?ls ! i) = (cs, Inr (newLines ! i, ss))"
      by blast
    then show "(trim (?ls ! i) = [] \<longrightarrow> newLines ! i = ?ls ! i) \<and>
              (startsWith (?ls ! i) ''#'' \<and> \<not> startsWith (?ls ! i) ''#EXT-X-KEY:'' \<longrightarrow>
                 newLines ! i = ?ls ! i) \<and>
              (trim (?ls ! i) \<noteq> [] \<and> \<not> startsWith (?ls ! i) ''#'' \<longrightarrow>
                 (\<forall>r. parseURL URL (?ls ! i) (Some url) = Str r \<and> r \<noteq> [] \<longrightarrow>
                      newLines ! i = proxy_url stringify base ''/ts-proxy'' r hdrs))"
      by (rule media_line_result)
  qed
  have joined: "CHR 0x0A \<notin> set base \<longrightarrow> split_nl out = newLines"
  proof
    assume b: "CHR 0x0A \<notin> set base"
    have ne: "newLines \<noteq> []" using len split_nl_nonempty [of content] by auto
    have "\<forall>l\<in>set newLines. CHR 0x0A \<notin> set l"
    proof
      fix l assume "l \<in> set newLines"
      then obtain i where i: "i < length newLines" "l = newLines ! i"
        by (auto simp: in_set_conv_nth)
      from each [OF i(1)] obtain cs ss where f: "?f (?ls ! i) = (cs, Inr (newLines ! i, ss))"
        by blast
      have "?ls ! i \<in> set ?ls" using i(1) len by simp
      then have "CHR 0x0A \<notin> set (?ls ! i)" by (rule split_nl_no_newline)
      from media_line_no_newline [OF b this f] i(2) show "CHR 0x0A \<notin> set l" by simp
    qed
    with ne show "split_nl out = newLines" unfolding out by (rule split_join_nl)
  qed
  have props': "\<forall>i<length newLines.
              (trim (?ls ! i) = [] \<longrightarrow> newLines ! i = ?ls ! i) \<and>
              (startsWith (?ls ! i) ''#'' \<and> \<not> startsWith (?ls ! i) ''#EXT-X-KEY:'' \<longrightarrow>
                 newLines ! i = ?ls ! i) \<and>
              (trim (?ls ! i) \<noteq> [] \<and> \<not> startsWith (?ls ! i) ''#'' \<longrightarrow>
                 (\<forall>r. parseURL URL (?ls ! i) (Some url) = Str r \<and> r \<noteq> [] \<longrightarrow>
                      newLines ! i =
                        base @ ''/ts-proxy?url='' @ encodeURIComponent r @
                        ''&headers='' @ encodeURIComponent (stringify hdrs)))"
    using props by (simp add: proxy_url_def)
  from out len props' joined show ?thesis by blast
qed

lemma media_rewrite_preserves_lines_example:
  "\<not> String_includes sample_media_playlist ''RESOLUTION='' \<and>
   (\<exists>newLines.
      fst (rewrite_manifest sample_URL sample_stringify False ''https://proxy.example''
             ''https://cdn.example/a/media.m3u8'' (JObj []) sample_media_playlist) =
        Reply_manifest (join_nl newLines) \<and>
      length newLines = 6 \<and>
      newLines ! 2 =
        ''#EXT-X-MEDIA:TYPE=AUDIO,URI='' @ [CHR 0x22] @ ''https://cdn.example/a/en.m3u8'' @ [CHR 0x22] \<and>
      newLines ! 4 =
        ''https://proxy.example/ts-proxy?url=https%3A%2F%2Fcdn.example%2Fa%2Fseg1.ts&headers=%7B%7D'' \<and>
      newLines ! 5 = [])"
proof -
  let ?url = "''https://cdn.example/a/media.m3u8''"
  from media_rewrite_preserves_lines [OF sample_media_no_marker sample_media_rewrite]
  obtain newLines where
    out: "join_nl
         [''#EXTM3U'',
          ''#EXT-X-KEY:METHOD=AES-128,URI='' @ [CHR 0x22] @
            ''https://proxy.example/ts-proxy?url=https%3A%2F%2Fkeys.example%2Fk1&headers=%7B%7D'' @
            [CHR 0x22],
          ''#EXT-X-MEDIA:TYPE=AUDIO,URI='' @ [CHR 0x22] @ ''https://cdn.example/a/en.m3u8'' @ [CHR 0x22],
          ''#EXTINF:4.0,'',
          ''https://proxy.example/ts-proxy?url=https%3A%2F%2Fcdn.example%2Fa%2Fseg1.ts&headers=%7B%7D'',
          []] = join_nl newLines"
    and len: "length newLines = length (split_nl sample_media_playlist)"
    and props: "\<forall>i<length newLines.
              (trim (split_nl sample_media_playlist ! i) = [] \<longrightarrow>
                 newLines ! i = split_nl sample_media_playlist ! i) \<and>
              (startsWith (split_nl sample_media_playlist ! i) ''#'' \<and>
               \<not> startsWith (split_nl sample_media_playlist ! i) ''#EXT-X-KEY:'' \<longrightarrow>
                 newLines ! i = split_nl sample_media_playlist ! i) \<and>
              (trim (split_nl sample_media_playlist ! i) \<noteq> [] \<and>
               \<not> startsWith (split_nl sample_media_playlist ! i) ''#'' \<longrightarrow>
                 (\<forall>r. parseURL sample_URL (split_nl sample_media_playlist ! i) (Some ?url) = Str r \<and>
                      r \<noteq> [] \<longrightarrow>
                      newLines ! i =
                        ''https://proxy.example'' @ ''/ts-proxy?url='' @ encodeURIComponent r @
                        ''&headers='' @ encodeURIComponent (sample_stringify (JObj []))))"
    by blast
  have l6: "length newLines = 6" using len by (simp add: sample_media_lines)
  have "(2::nat) < 6" "(4::nat) < 6" "(5::nat) < 6" by simp_all
  with props l6 have
    p2: "startsWith (split_nl sample_media_playlist ! 2) ''#'' \<and>
         \<not> startsWith (split_nl sample_media_playlist ! 2) ''#EXT-X-KEY:'' \<longrightarrow>
           newLines ! 2 = split_nl sample_media_playlist ! 2"
    and p4: "trim (split_nl sample_media_playlist ! 4) \<noteq> [] \<and>
               \<not> startsWith (split_nl sample_media_playlist ! 4) ''#'' \<longrightarrow>
                 (\<forall>r. parseURL sample_URL (split_nl sample_media_playlist ! 4) (Some ?url) = Str r \<and>
                      r \<noteq> [] \<longrightarrow>
                      newLines ! 4 =
                        ''https://proxy.example'' @ ''/ts-proxy?url='' @ encodeURIComponent r @
                        ''&headers='' @ encodeURIComponent (sample_stringify (JObj [])))"
    and p5: "trim (split_nl sample_media_playlist ! 5) = [] \<longrightarrow>
                 newLines ! 5 = split_nl sample_media_playlist ! 5"
    by metis+
  have n2: "newLines ! 2 =
        ''#EXT-X-MEDIA:TYPE=AUDIO,URI='' @ [CHR 0x22] @ ''https://cdn.example/a/en.m3u8'' @ [CHR 0x22]"
    using p2 by (simp add: sample_media_lines startsWith_def)
  have "trim ''seg1.ts'' \<noteq> []" by (simp add: trim_eq_Nil is_space_def)
  then have n4: "newLines ! 4 =
        ''https://proxy.example/ts-proxy?url=https%3A%2F%2Fcdn.example%2Fa%2Fseg1.ts&headers=%7B%7D''"
    using p4 sample_segment_resolves sample_segment_url [unfolded proxy_url_def]
    by (simp add: sample_media_lines startsWith_def)
  have n5: "newLines ! 5 = []"
    using p5 by (simp add: sample_media_lines trim_def)
  from out l6 n2 n4 n5 sample_media_no_marker show ?thesis
    by (auto simp: sample_media_rewrite)
qed

section \<open>Claims about the playlist rewriter\<close>

text \<open>
  C1 fails on the code. The media playlist has a segment line that the resolver
  resolves, \<open>seg1.ts\<close>, and a line that the \<open>URL\<close> constructor rejects, \<open>http://\<close>.
  \<open>parseURL\<close> throws at the latter (line 8 has no \<open>try\<close> around \<open>new URL\<close>), the loop
  is left and the \<open>catch\<close> of line 345 answers 500: there is no output, so no line is
  preserved and the resolved line is not replaced by its proxy URL. The defect is the
  one of C6. When the rewriter returns a manifest, what C1 says holds of it
  (\<open>media_rewrite_preserves_lines\<close>).
\<close>

theorem media_rewrite_fails_on_unresolved_line:
  "\<not> String_includes sample_mixed_playlist ''RESOLUTION='' \<and>
   split_nl sample_mixed_playlist = [''#EXTM3U'', ''seg1.ts'', ''http://'', []] \<and>
   parseURL sample_URL ''seg1.ts'' (Some ''https://cdn.example/a/media.m3u8'') =
     Str ''https://cdn.example/a/seg1.ts'' \<and>
   parseURL sample_URL ''http://'' (Some ''https://cdn.example/a/media.m3u8'') =
     Thrown ''Invalid URL'' \<and>
   rewrite_manifest sample_URL sample_stringify False ''https://proxy.example''
     ''https://cdn.example/a/media.m3u8'' (JObj []) sample_mixed_playlist =
   (Reply_error 500 ''Invalid URL'', [])"
proof -
  have "\<not> String_includes sample_mixed_playlist ''RESOLUTION=''" by code_simp
  moreover have "parseURL sample_URL ''http://'' (Some ''https://cdn.example/a/media.m3u8'') =
     Thrown ''Invalid URL''"
    by (simp add: parseURL_def sample_URL_def)
  ultimately show ?thesis
    by (simp add: sample_mixed_lines sample_mixed_rewrite sample_segment_resolves)
qed

text \<open>
  C2. The rewriter takes the master branch exactly when the raw text contains
  \<open>RESOLUTION=\<close> somewhere, and the media branch otherwise: with the marker the result
  is that of the master loop, which issues no call; without it the result is that of the
  media loop and its hand-over to the prefetcher. Key and alternate-media directives do
  not decide the branch: in the media branch a \<open>#EXT-X-MEDIA:\<close> line is passed through
  unchanged.
\<close>

theorem playlist_classification:
  "String_includes content ''RESOLUTION='' = (\<exists>a b. content = a @ ''RESOLUTION='' @ b) \<and>
   (String_includes content ''RESOLUTION='' \<longrightarrow>
      rewrite_manifest URL stringify disabled base url hdrs content =
        (case master_loop (master_line URL stringify base url hdrs) [] (split_nl content) of
           Inl m \<Rightarrow> (internal_error m, [])
         | Inr newLines \<Rightarrow> (Reply_manifest (join_nl newLines), []))) \<and>
   (\<not> String_includes content ''RESOLUTION='' \<longrightarrow>
      rewrite_manifest URL stringify disabled base url hdrs content =
        (case media_loop (media_line URL stringify disabled base url hdrs) [] [] []
                (split_nl content) of
           (calls, Inl m) \<Rightarrow> (internal_error m, calls)
         | (calls, Inr (newLines, segmentUrls)) \<Rightarrow>
             (Reply_manifest (join_nl newLines),
              calls @ (if segmentUrls \<noteq> [] \<and> \<not> disabled
                       then [Cleanup, PrefetchAll segmentUrls hdrs] else [])))) \<and>
   (\<forall>line. startsWith line ''#EXT-X-MEDIA:'' \<longrightarrow>
      media_line URL stringify disabled base url hdrs line = ([], Inr (line, [])))"
proof -
  have a: "String_includes content ''RESOLUTION='' = (\<exists>a b. content = a @ ''RESOLUTION='' @ b)"
    by (rule String_includes_iff)
  have b: "String_includes content ''RESOLUTION='' \<longrightarrow>
      rewrite_manifest URL stringify disabled base url hdrs content =
        (case master_loop (master_line URL stringify base url hdrs) [] (split_nl content) of
           Inl m \<Rightarrow> (internal_error m, [])
         | Inr newLines \<Rightarrow> (Reply_manifest (join_nl newLines), []))"
    by (simp add: rewrite_manifest_def)
  have c: "\<not> String_includes content ''RESOLUTION='' \<longrightarrow>
      rewrite_manifest URL stringify disabled base url hdrs content =
        (case media_loop (media_line URL stringify disabled base url hdrs) [] [] []
                (split_nl content) of
           (calls, Inl m) \<Rightarrow> (internal_error m, calls)
         | (calls, Inr (newLines, segmentUrls)) \<Rightarrow>
             (Reply_manifest (join_nl newLines),
              calls @ (if segmentUrls \<noteq> [] \<and> \<not> disabled
                       then [Cleanup, PrefetchAll segmentUrls hdrs] else [])))"
    by (simp add: rewrite_manifest_def)
  have d: "\<forall>line. startsWith line ''#EXT-X-MEDIA:'' \<longrightarrow>
      media_line URL stringify disabled base url hdrs line = ([], Inr (line, []))"
    using startsWith_media_tag by (simp add: media_line_def)
  from a b c d show ?thesis by (intro conjI)
qed

theorem playlist_classification_witness:
  "String_includes sample_master_playlist ''RESOLUTION='' \<and>
   \<not> String_includes sample_media_playlist ''RESOLUTION='' \<and>
   rewrite_manifest sample_URL sample_stringify False ''https://proxy.example''
     ''https://cdn.example/a/media.m3u8'' (JObj []) sample_media_playlist =
   (case media_loop (media_line sample_URL sample_stringify False ''https://proxy.example''
                       ''https://cdn.example/a/media.m3u8'' (JObj [])) [] [] []
           (split_nl sample_media_playlist) of
      (calls, Inl m) \<Rightarrow> (internal_error m, calls)
    | (calls, Inr (newLines, segmentUrls)) \<Rightarrow>
        (Reply_manifest (join_nl newLines),
         calls @ (if segmentUrls \<noteq> [] \<and> \<not> False
                  then [Cleanup, PrefetchAll segmentUrls (JObj [])] else []))) \<and>
   rewrite_manifest sample_URL sample_stringify False ''https://proxy.example''
     ''https://cdn.example/a/master.m3u8'' (JObj []) sample_master_playlist =
   (case master_loop (master_line sample_URL sample_stringify ''https://proxy.example''
                        ''https://cdn.example/a/master.m3u8'' (JObj [])) []
           (split_nl sample_master_playlist) of
      Inl m \<Rightarrow> (internal_error m, [])
    | Inr newLines \<Rightarrow> (Reply_manifest (join_nl newLines), []))"
proof -
  have m: "String_includes sample_master_playlist ''RESOLUTION=''" by code_simp
  show ?thesis
    using m sample_media_no_marker
      playlist_classification [of sample_master_playlist sample_URL sample_stringify False
        "''https://proxy.example''" "''https://cdn.example/a/master.m3u8''" "JObj []"]
      playlist_classification [of sample_media_playlist sample_URL sample_stringify False
        "''https://proxy.example''" "''https://cdn.example/a/media.m3u8''" "JObj []"]
    by blast
qed

section \<open>Claims about the cache\<close>

text \<open>
  C3. \<open>cleanupCache\<close> is what the interval of line 85 runs every 30 minutes and what
  \<open>prefetchSegment\<close> runs before an insertion into a full cache (line 99). After one
  pass of \<open>cleanupCache\<close> over a cache with distinct keys, the cache holds
  at most \<open>CACHE_MAX_SIZE\<close> (2000) entries, all of them entries that survived the expiry
  loop. When the size after the expiry loop exceeded the capacity, exactly
  \<open>size - CACHE_MAX_SIZE\<close> entries were removed, leaving \<open>CACHE_MAX_SIZE\<close>, and every
  removed entry has a timestamp no larger than that of every retained entry: the oldest
  insertions go, the most recent ones stay.
\<close>

theorem cleanupCache_capacity:
  assumes d: "distinct (map fst c)"
  shows "length (cleanupCache now c) \<le> CACHE_MAX_SIZE \<and>
         set (cleanupCache now c) \<subseteq> set (cleanupCache_expired now c) \<and>
         (CACHE_MAX_SIZE < length (cleanupCache_expired now c) \<longrightarrow>
            length (cleanupCache now c) = CACHE_MAX_SIZE \<and>
            card (set (cleanupCache_expired now c) - set (cleanupCache now c)) =
              length (cleanupCache_expired now c) - CACHE_MAX_SIZE \<and>
            (\<forall>x\<in>set (cleanupCache_expired now c) - set (cleanupCache now c).
               \<forall>y\<in>set (cleanupCache now c). timestamp (snd x) \<le> timestamp (snd y)))"
proof (cases "CACHE_MAX_SIZE < length (cleanupCache_expired now c)")
  case False
  then show ?thesis by (simp add: cleanupCache_def)
next
  case True
  define c1 where "c1 = cleanupCache_expired now c"
  define n where "n = length c1 - CACHE_MAX_SIZE"
  define s where "s = sort_key (\<lambda>(url, entry). timestamp entry) c1"
  define r where "r = fold (\<lambda>(url, entry) m. Map_delete url m) (take n s) c1"
  have big: "CACHE_MAX_SIZE < length c1" using True by (simp add: c1_def)
  have res: "cleanupCache now c = r"
    using big by (simp add: cleanupCache_def c1_def [symmetric] r_def s_def n_def Let_def)
  have d1: "distinct (map fst c1)"
    unfolding c1_def using d by (rule distinct_keys_expired)
  have n: "n \<le> length c1" by (simp add: n_def)
  have len: "length r = length c1 - n"
    and sr: "set r = set (drop n s)"
    and rem: "set c1 - set r = set (take n s)"
    and old: "\<forall>x\<in>set (take n s). \<forall>y\<in>set r. timestamp (snd x) \<le> timestamp (snd y)"
    using evict_oldest [OF d1 n] by (simp_all add: r_def s_def)
  have ds: "distinct s" using d1 by (simp add: s_def distinct_map)
  have ls: "length s = length c1" by (simp add: s_def)
  have "card (set (take n s)) = n"
    using ds n ls by (simp add: distinct_card)
  then have cardrem: "card (set c1 - set r) = length c1 - CACHE_MAX_SIZE"
    by (simp add: rem n_def)
  have lenr: "length r = CACHE_MAX_SIZE" using len big by (simp add: n_def)
  have sub: "set r \<subseteq> set c1"
    using sr by (metis set_drop_subset set_sort s_def)
  show ?thesis
    unfolding res c1_def [symmetric]
    using lenr sub cardrem old rem by simp
qed

theorem cleanupCache_capacity_witness:
  "distinct (map fst sample_full_cache) \<and>
   CACHE_MAX_SIZE < length (cleanupCache_expired 0 sample_full_cache) \<and>
   length (cleanupCache 0 sample_full_cache) = CACHE_MAX_SIZE \<and>
   card (set (cleanupCache_expired 0 sample_full_cache) - set (cleanupCache 0 sample_full_cache)) = 1"
  using cleanupCache_capacity [OF sample_full_cache_distinct, of 0]
  by (simp add: sample_full_cache_fresh sample_full_cache_length CACHE_MAX_SIZE_def
        sample_full_cache_distinct)

text \<open>
  C4, as the code has it. With the cache enabled, a lookup returns the stored entry and
  leaves the cache as it is when \<open>now - timestamp \<le> CACHE_EXPIRY_MS\<close> (2 hours);
  otherwise it reports a miss and deletes that entry, and no other. So an entry stored
  at \<open>T0\<close> is returned at every \<open>now \<le> T0 + CACHE_EXPIRY_MS\<close> and is a miss, and gone,
  at every later time. With the cache disabled (\<open>DISABLE_CACHE\<close>), every lookup is a
  miss and the cache is left untouched.
\<close>

theorem getCachedSegment_ttl:
  "(\<not> disabled \<and> Map_get url c = Some e \<and> now - timestamp e \<le> CACHE_EXPIRY_MS \<longrightarrow>
      getCachedSegment disabled now url c = (Some e, c)) \<and>
   (\<not> disabled \<and> Map_get url c = Some e \<and> CACHE_EXPIRY_MS < now - timestamp e \<longrightarrow>
      fst (getCachedSegment disabled now url c) = None \<and>
      snd (getCachedSegment disabled now url c) = Map_delete url c \<and>
      Map_get url (snd (getCachedSegment disabled now url c)) = None \<and>
      (\<forall>k. k \<noteq> url \<longrightarrow> Map_get k (snd (getCachedSegment disabled now url c)) = Map_get k c)) \<and>
   (\<not> disabled \<and> now \<le> T0 + CACHE_EXPIRY_MS \<longrightarrow>
      fst (getCachedSegment disabled now url (Map_set url (e\<lparr>timestamp := T0\<rparr>) c)) =
        Some (e\<lparr>timestamp := T0\<rparr>)) \<and>
   (\<not> disabled \<and> T0 + CACHE_EXPIRY_MS < now \<longrightarrow>
      fst (getCachedSegment disabled now url (Map_set url (e\<lparr>timestamp := T0\<rparr>) c)) = None \<and>
      Map_get url (snd (getCachedSegment disabled now url (Map_set url (e\<lparr>timestamp := T0\<rparr>) c)))
        = None) \<and>
   (\<not> disabled \<and> Map_get url c = None \<longrightarrow> getCachedSegment disabled now url c = (None, c)) \<and>
   (disabled \<longrightarrow> getCachedSegment disabled now url c = (None, c))"
  by (simp add: getCachedSegment_def Map_get_set_same Map_get_delete_same
        Map_get_delete_other)

theorem getCachedSegment_ttl_witness:
  "getCachedSegment False 7200000 ''u'' [(''u'', \<lparr>data = ''x'', headers = [], timestamp = 0\<rparr>)]
     = (Some \<lparr>data = ''x'', headers = [], timestamp = 0\<rparr>,
        [(''u'', \<lparr>data = ''x'', headers = [], timestamp = 0\<rparr>)]) \<and>
   getCachedSegment False 7200001 ''u'' [(''u'', \<lparr>data = ''x'', headers = [], timestamp = 0\<rparr>)]
     = (None, [])"
  using getCachedSegment_ttl [of False "''u''"
      "[(''u'', \<lparr>data = ''x'', headers = [], timestamp = 0\<rparr>)]"
      "\<lparr>data = ''x'', headers = [], timestamp = 0\<rparr>" 7200000 0]
    getCachedSegment_ttl [of False "''u''"
      "[(''u'', \<lparr>data = ''x'', headers = [], timestamp = 0\<rparr>)]"
      "\<lparr>data = ''x'', headers = [], timestamp = 0\<rparr>" 7200001 0]
  by (simp add: Map_get_def Map_delete_def CACHE_EXPIRY_MS_def prod_eq_iff)

text \<open>
  C4 as stated fails: with \<open>DISABLE_CACHE\<close> set, a fresh stored entry is not returned,
  and an expired one is not deleted.
\<close>

theorem getCachedSegment_disabled_counterexample:
  "Map_get ''u'' [(''u'', \<lparr>data = ''x'', headers = [], timestamp = 0\<rparr>)]
     = Some \<lparr>data = ''x'', headers = [], timestamp = 0\<rparr> \<and>
   0 - timestamp \<lparr>data = ''x'', headers = [], timestamp = 0\<rparr> \<le> CACHE_EXPIRY_MS \<and>
   fst (getCachedSegment True 0 ''u'' [(''u'', \<lparr>data = ''x'', headers = [], timestamp = 0\<rparr>)])
     = None \<and>
   snd (getCachedSegment True 7200001 ''u'' [(''u'', \<lparr>data = ''x'', headers = [], timestamp = 0\<rparr>)])
     = [(''u'', \<lparr>data = ''x'', headers = [], timestamp = 0\<rparr>)]"
  by (simp add: getCachedSegment_def Map_get_def CACHE_EXPIRY_MS_def)

section \<open>Claims about the endpoints and the resolver\<close>

text \<open>
  C5, as the code has it. A request that is not a CORS preflight and whose
  \<open>event.path\<close>, query string included, is exactly \<open>/cache-stats\<close> is answered, when
  \<open>DISABLE_M3U8\<close> is not set, with the statistics of the cache after the cleanup pass
  it runs: \<open>entries\<close> is its size, \<open>maxSize\<close> is 2000 and \<open>expiryHours\<close> is 2. When
  \<open>DISABLE_M3U8\<close> is set the answer is the error 404; a preflight request gets the
  CORS reply.
\<close>

theorem cache_stats_reply:
  "(\<not> isPreflightRequest ev \<and> \<not> DISABLE_M3U8 e \<and> path ev = ''/cache-stats'' \<longrightarrow>
      m3u8_proxy_handler P e now c ev =
        (Reply_stats (getCacheStats (toFixed2 P) (cleanupCache now c)), [Cleanup]) \<and>
      entries (getCacheStats (toFixed2 P) (cleanupCache now c)) = length (cleanupCache now c) \<and>
      maxSize (getCacheStats (toFixed2 P) (cleanupCache now c)) = 2000 \<and>
      expiryHours (getCacheStats (toFixed2 P) (cleanupCache now c)) = 2) \<and>
   (\<not> isPreflightRequest ev \<and> DISABLE_M3U8 e \<longrightarrow>
      m3u8_proxy_handler P e now c ev = (Reply_error 404 ''M3U8 proxying is disabled'', [])) \<and>
   (isPreflightRequest ev \<longrightarrow> m3u8_proxy_handler P e now c ev = (Reply_cors, []))"
  by (simp add: m3u8_proxy_handler_def handleCacheStats_def getCacheStats_def Let_def
        CACHE_MAX_SIZE_def CACHE_EXPIRY_MS_def)

theorem cache_stats_reply_witness:
  "m3u8_proxy_handler sample_platform sample_env 0 [] (sample_event ''/cache-stats'' []) =
     (Reply_stats \<lparr>entries = 0, totalSizeMB = ''0.00'', avgEntrySizeKB = ''0.00'',
                   maxSize = 2000, expiryHours = 2\<rparr>, [Cleanup])"
proof -
  have c: "cleanupCache 0 [] = []"
    by (simp add: cleanupCache_def cleanupCache_expired_def)
  have "getCacheStats (toFixed2 sample_platform) [] =
          \<lparr>entries = 0, totalSizeMB = ''0.00'', avgEntrySizeKB = ''0.00'',
           maxSize = 2000, expiryHours = 2\<rparr>"
    by (simp add: getCacheStats_def sample_platform_def CACHE_MAX_SIZE_def CACHE_EXPIRY_MS_def)
  then show ?thesis
    using cache_stats_reply [of "sample_event ''/cache-stats'' []" sample_env sample_platform 0 "[]"]
    by (simp add: c sample_event_def sample_env_def)
qed

text \<open>
  C5 as stated fails in three ways. The check of \<open>DISABLE_M3U8\<close> (line 367) comes
  before the path is looked at, so under that setting a request to \<open>/cache-stats\<close> is
  answered 404. Line 374 compares \<open>event.path\<close> with \<open>/cache-stats\<close>, and
  \<open>event.path\<close> carries the query string: \<open>GET /cache-stats?x=1\<close> goes on to
  \<open>proxyM3U8\<close>, which answers 400 for the missing \<open>url\<close>. A preflight request is
  answered by \<open>handleCors\<close> (line 365).
\<close>

theorem cache_stats_disabled_counterexample:
  "path (sample_event ''/cache-stats'' []) = ''/cache-stats'' \<and>
   m3u8_proxy_handler sample_platform \<lparr>DISABLE_M3U8 = True, DISABLE_CACHE = False\<rparr> 0 []
     (sample_event ''/cache-stats'' []) =
   (Reply_error 404 ''M3U8 proxying is disabled'', []) \<and>
   m3u8_proxy_handler sample_platform sample_env 0 []
     \<lparr>isPreflightRequest = False, path = ''/cache-stats?x=1'', query_url = None,
      query_headers = None, requestHost = ''proxy.example'', requestProtocol = ''https''\<rparr> =
   (Reply_error 400 ''URL parameter is required'', []) \<and>
   m3u8_proxy_handler sample_platform sample_env 0 []
     \<lparr>isPreflightRequest = True, path = ''/cache-stats'', query_url = None,
      query_headers = None, requestHost = ''proxy.example'', requestProtocol = ''https''\<rparr> =
   (Reply_cors, [])"
  by (simp add: m3u8_proxy_handler_def sample_event_def sample_env_def proxyM3U8_def)

text \<open>
  C6 fails on the code. The origin serves a media playlist whose second line is
  \<open>http://\<close>. \<open>new URL("http://", base)\<close> throws, and \<open>parseURL\<close> called with a base
  has no \<open>try\<close> around it (line 8): the error leaves the loop, the \<open>catch\<close> of line 345
  answers 500. The line is not passed through, and the request fails.
\<close>

theorem resolution_failure_is_500:
  "sample_URL ''http://'' (Some ''https://cdn.example/a/bad.m3u8'') = URL_throws ''Invalid URL'' \<and>
   split_nl sample_bad_playlist = [''#EXTM3U'', ''http://'', []] \<and>
   proxyM3U8 sample_platform sample_env
     (sample_event ''/m3u8-proxy'' ''https://cdn.example/a/bad.m3u8'') =
   (Reply_error 500 ''Invalid URL'', [])"
proof -
  have "split_nl sample_bad_playlist = [''#EXTM3U'', ''http://'', []]" by code_simp
  then show ?thesis by (simp add: sample_bad_request sample_URL_def)
qed

text \<open>
  C7, as the code has it. Called without a base, \<open>parseURL\<close> returns \<open>null\<close> exactly
  when the input does not match the pattern, or it starts with \<open>http:\<close> or \<open>https:\<close>
  while the pattern captured no scheme, or the structured parse of the final URL throws,
  or that parse yields an empty host. In every other case it returns the \<open>href\<close> of the
  parsed URL. The final URL is the input itself when a scheme was captured; otherwise
  it is the input (with \<open>//\<close> put in front unless it starts with it) under the scheme
  \<open>https:\<close> when the captured port is exactly \<open>443\<close> and \<open>http:\<close> when it is not.
\<close>

theorem parseURL_no_base:
  "(parseURL URL s None = Null) =
     (url_pattern s = None \<or>
      (\<exists>host port rest. url_pattern s = Some (None, host, port, rest) \<and> test_http s) \<or>
      (\<exists>m. URL (final_url s) None = URL_throws m) \<or>
      (\<exists>href. URL (final_url s) None = URL_ok [] href)) \<and>
   (parseURL URL s None \<noteq> Null \<longrightarrow>
      (\<exists>hostname href. URL (final_url s) None = URL_ok hostname href \<and>
         parseURL URL s None = Str href)) \<and>
   (\<forall>host port rest. url_pattern s = Some (None, host, port, rest) \<longrightarrow>
      final_url s = (if port = Some ''443'' then ''https:'' else ''http:'') @
                    (if prefix ''//'' s then s else ''//'' @ s)) \<and>
   (\<forall>sch host port rest. url_pattern s = Some (Some sch, host, port, rest) \<longrightarrow>
      final_url s = s)"
proof (cases "url_pattern s")
  case None
  then show ?thesis by (simp add: parseURL_def final_url_def)
next
  case (Some m)
  obtain sch host port rest where m: "m = (sch, host, port, rest)" by (cases m)
  show ?thesis
  proof (cases sch)
    case None
    with Some m show ?thesis
      by (cases "URL (assume_scheme port s) None")
        (auto simp: parseURL_def final_url_def parse_final_def assume_scheme_def)
  next
    case (Some x)
    with \<open>url_pattern s = Some m\<close> m have "x \<noteq> []"
      using url_pattern_scheme_nonempty by blast
    with Some \<open>url_pattern s = Some m\<close> m show ?thesis
      by (cases "URL s None") (auto simp: parseURL_def final_url_def parse_final_def)
  qed
qed

theorem parseURL_no_base_witness:
  "url_pattern ''example.com:443/v/a.m3u8'' =
     Some (None, ''example.com'', Some ''443'', ''/v/a.m3u8'') \<and>
   final_url ''example.com:443/v/a.m3u8'' = ''https://example.com:443/v/a.m3u8'' \<and>
   parseURL sample_URL ''example.com:443/v/a.m3u8'' None = Str ''https://example.com/v/a.m3u8'' \<and>
   final_url ''example.com/v/a.m3u8'' = ''http://example.com/v/a.m3u8'' \<and>
   parseURL sample_URL ''example.com/v/a.m3u8'' None = Str ''http://example.com/v/a.m3u8''"
proof -
  let ?a = "''example.com:443/v/a.m3u8''" and ?b = "''example.com/v/a.m3u8''"
  have fa: "final_url ?a = ''https://example.com:443/v/a.m3u8''"
    using url_pattern_port_443 by (simp add: final_url_def assume_scheme_def)
  have fb: "final_url ?b = ''http://example.com/v/a.m3u8''"
    using url_pattern_no_port by (simp add: final_url_def assume_scheme_def)
  have ua: "sample_URL ''https://example.com:443/v/a.m3u8'' None =
              URL_ok ''example.com'' ''https://example.com/v/a.m3u8''"
    and ub: "sample_URL ''http://example.com/v/a.m3u8'' None =
              URL_ok ''example.com'' ''http://example.com/v/a.m3u8''"
    by (simp_all add: sample_URL_def)
  have ta: "\<not> test_http ?a" and tb: "\<not> test_http ?b"
    by (simp_all add: test_http_def)
  have "parseURL sample_URL ?a None \<noteq> Null"
    using parseURL_no_base [of sample_URL ?a] url_pattern_port_443 fa ua ta by simp
  then have ra: "parseURL sample_URL ?a None = Str ''https://example.com/v/a.m3u8''"
    using parseURL_no_base [of sample_URL ?a] fa ua by auto
  have "parseURL sample_URL ?b None \<noteq> Null"
    using parseURL_no_base [of sample_URL ?b] url_pattern_no_port fb ub tb by simp
  then have rb: "parseURL sample_URL ?b None = Str ''http://example.com/v/a.m3u8''"
    using parseURL_no_base [of sample_URL ?b] fb ub by auto
  show ?thesis using url_pattern_port_443 fa fb ra rb by simp
qed

text \<open>
  C7 as stated fails: \<open>example.com:99999\<close> matches the pattern, does not start with
  \<open>http:\<close> or \<open>https:\<close>, and its structured parse yields no empty host, since it
  yields no host at all: \<open>new URL("http://example.com:99999")\<close> throws, the \<open>catch\<close>
  of line 37 returns \<open>null\<close>.
\<close>

theorem parseURL_throw_counterexample:
  "parseURL sample_URL ''example.com:99999'' None = Null \<and>
   url_pattern ''example.com:99999'' = Some (None, ''example.com'', Some ''99999'', []) \<and>
   \<not> test_http ''example.com:99999'' \<and>
   final_url ''example.com:99999'' = ''http://example.com:99999'' \<and>
   sample_URL ''http://example.com:99999'' None = URL_throws ''Invalid URL''"
  using url_pattern_port_99999
  by (simp add: parseURL_def final_url_def assume_scheme_def parse_final_def test_http_def
        sample_URL_def)




text \<open>
  C9, as the code has it. The segment server never adds an entry to the cache: after any
  request the entries are among those before it. On a miss (the cache is disabled, or it
  holds no entry for the URL, or the entry is expired) the reply is made from the
  origin's answer alone, and the cache is as before except that the lookup has deleted
  the expired entry of the requested URL, if there was one; the entries of all other
  URLs stay.
\<close>

theorem segment_miss_cache_effect:
  "set (snd (ts_proxy_handler P e now c ev)) \<subseteq> set c \<and>
   (\<not> isPreflightRequest ev \<and> \<not> DISABLE_M3U8 e \<and> query_url ev = Some url \<and> url \<noteq> [] \<and>
    parse_headers (JSON_parse P) (query_headers ev) = Some hdrs \<and>
    (DISABLE_CACHE e \<or>
     (\<forall>entry. Map_get url c = Some entry \<longrightarrow> CACHE_EXPIRY_MS < now - timestamp entry)) \<longrightarrow>
      fst (ts_proxy_handler P e now c ev) =
        (case fetch P url (origin_headers hdrs) of
           Fetch_throws m st \<Rightarrow>
             Reply_error (case st of Some n \<Rightarrow> if n \<noteq> 0 then n else 500 | None \<Rightarrow> 500)
               (if m \<noteq> [] then m else ''Error proxying TS file'')
         | Fetch_response r \<Rightarrow>
             if \<not> ok r then
               Reply_error 500
                 (''Failed to fetch TS file: '' @ show_nat (status r) @ '' '' @ statusText r)
             else Reply_segment ''video/mp2t'' (body r)) \<and>
      snd (ts_proxy_handler P e now c ev) =
        (if \<not> DISABLE_CACHE e \<and> Map_get url c \<noteq> None then Map_delete url c else c) \<and>
      (\<forall>k. k \<noteq> url \<longrightarrow> Map_get k (snd (ts_proxy_handler P e now c ev)) = Map_get k c))"
proof -
  have "\<not> isPreflightRequest ev \<and> \<not> DISABLE_M3U8 e \<and> query_url ev = Some url \<and> url \<noteq> [] \<and>
    parse_headers (JSON_parse P) (query_headers ev) = Some hdrs \<and>
    (DISABLE_CACHE e \<or>
     (\<forall>entry. Map_get url c = Some entry \<longrightarrow> CACHE_EXPIRY_MS < now - timestamp entry)) \<longrightarrow>
      fst (ts_proxy_handler P e now c ev) =
        (case fetch P url (origin_headers hdrs) of
           Fetch_throws m st \<Rightarrow>
             Reply_error (case st of Some n \<Rightarrow> if n \<noteq> 0 then n else 500 | None \<Rightarrow> 500)
               (if m \<noteq> [] then m else ''Error proxying TS file'')
         | Fetch_response r \<Rightarrow>
             if \<not> ok r then
               Reply_error 500
                 (''Failed to fetch TS file: '' @ show_nat (status r) @ '' '' @ statusText r)
             else Reply_segment ''video/mp2t'' (body r)) \<and>
      snd (ts_proxy_handler P e now c ev) =
        (if \<not> DISABLE_CACHE e \<and> Map_get url c \<noteq> None then Map_delete url c else c) \<and>
      (\<forall>k. k \<noteq> url \<longrightarrow> Map_get k (snd (ts_proxy_handler P e now c ev)) = Map_get k c)"
    by (cases "fetch P url (origin_headers hdrs)"; cases "Map_get url c")
      (auto simp: ts_proxy_handler_def getCachedSegment_def Map_get_delete_other)
  with ts_proxy_never_inserts [of P e now c ev] show ?thesis by (intro conjI)
qed

theorem segment_miss_cache_effect_witness:
  "ts_proxy_handler sample_platform sample_env 0 []
     (sample_event ''/ts-proxy'' ''https://cdn.example/a/seg1.ts'') =
   (Reply_segment ''video/mp2t'' ''DATA'', [])"
proof -
  let ?ev = "sample_event ''/ts-proxy'' ''https://cdn.example/a/seg1.ts''"
  have f: "fetch sample_platform ''https://cdn.example/a/seg1.ts'' (origin_headers (JObj [])) =
           Fetch_response \<lparr>ok = True, status = 200, statusText = ''OK'', body = ''DATA''\<rparr>"
    by (simp add: sample_platform_def sample_fetch_def)
  have h: "parse_headers (JSON_parse sample_platform) (query_headers ?ev) = Some (JObj [])"
    by (simp add: parse_headers_def sample_event_def)
  have m: "Map_get ''https://cdn.example/a/seg1.ts'' [] = None" by (simp add: Map_get_def)
  from segment_miss_cache_effect [of sample_platform sample_env 0 "[]" ?ev
      "''https://cdn.example/a/seg1.ts''" "JObj []"] f h m
  have "fst (ts_proxy_handler sample_platform sample_env 0 [] ?ev) =
          Reply_segment ''video/mp2t'' ''DATA'' \<and>
        snd (ts_proxy_handler sample_platform sample_env 0 [] ?ev) = []"
    by (simp add: sample_event_def sample_env_def)
  then show ?thesis by (simp add: prod_eq_iff)
qed

text \<open>
  C9 as stated fails: a request that misses because the entry has expired is served from
  the origin and leaves the cache without that entry, so the cache is not the same before
  and after.
\<close>

theorem segment_miss_expired_counterexample:
  "Map_get ''https://cdn.example/a/seg1.ts''
     [(''https://cdn.example/a/seg1.ts'', \<lparr>data = ''OLD'', headers = [], timestamp = 0\<rparr>)] =
     Some \<lparr>data = ''OLD'', headers = [], timestamp = 0\<rparr> \<and>
   ts_proxy_handler sample_platform sample_env 7200001
     [(''https://cdn.example/a/seg1.ts'', \<lparr>data = ''OLD'', headers = [], timestamp = 0\<rparr>)]
     (sample_event ''/ts-proxy'' ''https://cdn.example/a/seg1.ts'') =
   (Reply_segment ''video/mp2t'' ''DATA'', [])"
  by (simp add: ts_proxy_handler_def sample_event_def sample_env_def sample_platform_def
        sample_fetch_def parse_headers_def getCachedSegment_def Map_get_def Map_delete_def
        CACHE_EXPIRY_MS_def)




end
